theory Spec2Isabelle
  imports Complex_Main "HOL-Library.Log_Nat"
begin

section \<open>Python dictionaries and strings\<close>

text \<open>
  A Python \<^verbatim>\<open>dict\<close> keeps its keys in insertion order, and \<^verbatim>\<open>sorted\<close> over its items
  is stable, so the order is part of the behaviour of the eviction. A dictionary is an
  association list with pairwise different keys: \<^verbatim>\<open>d[k] = v\<close> overwrites the value of an
  existing key in place and appends a new key at the end, \<^verbatim>\<open>d.pop(k, None)\<close> and a
  guarded \<^verbatim>\<open>del d[k]\<close> remove the key, \<^verbatim>\<open>k in d\<close> and \<^verbatim>\<open>d[k]\<close> are the lookup.
\<close>

fun dict_setitem :: "('k \<times> 'v) list \<Rightarrow> 'k \<Rightarrow> 'v \<Rightarrow> ('k \<times> 'v) list" where
  "dict_setitem [] k v = [(k, v)]"
| "dict_setitem ((k', v') # d) k v =
     (if k' = k then (k', v) # d else (k', v') # dict_setitem d k v)"

definition dict_pop :: "('k \<times> 'v) list \<Rightarrow> 'k \<Rightarrow> ('k \<times> 'v) list" where
  "dict_pop d k = filter (\<lambda>kv. fst kv \<noteq> k) d"

definition dict_get :: "('k \<times> 'v) list \<Rightarrow> 'k \<Rightarrow> 'v option" where
  "dict_get d k = map_of d k"

definition dict_keys :: "('k \<times> 'v) list \<Rightarrow> 'k list" where
  "dict_keys d = map fst d"

text \<open>\<^verbatim>\<open>s.startswith(p)\<close>.\<close>

definition startswith :: "string \<Rightarrow> string \<Rightarrow> bool" where
  "startswith s p = (take (length p) s = p)"

text \<open>\<^verbatim>\<open>xs[:n]\<close> for an integer \<open>n\<close>: a negative bound counts from the end.\<close>

definition slice_to :: "'a list \<Rightarrow> int \<Rightarrow> 'a list" where
  "slice_to xs n = (if 0 \<le> n then take (nat n) xs else take (nat (int (length xs) + n)) xs)"

section \<open>The weather cache pool (core/utils/weather\_cache.py)\<close>

text \<open>
  Timestamps are the results of \<^verbatim>\<open>time.time()\<close>, Python floats, that is numbers of the
  IEEE 754 format binary64. A finite float is modelled by the real number it denotes.
  Comparing two floats is exact, so \<^verbatim>\<open>_is_expired\<close> and the sort of the eviction compare
  reals; the sum \<^verbatim>\<open>current_time + ttl\<close> that sets \<^verbatim>\<open>expires_at\<close> is kept as the real
  sum. The subtractions and the multiplication of \<^verbatim>\<open>_need_refresh\<close>, where the rounding
  decides the result, are modelled in binary64 (next subsection).
  Every read of the clock is an argument of the operation that makes it:
  \<^verbatim>\<open>datetime.now()\<close> (a calendar reading, used for the key) and \<^verbatim>\<open>time.time()\<close>
  (a timestamp) are separate reads in the source and separate arguments here.
\<close>

subsection \<open>Float arithmetic\<close>

text \<open>
  The result of a float operation: a finite number, an infinity or a NaN. The sign of a
  zero is left out: no operation of \<^verbatim>\<open>_need_refresh\<close> tells the two zeros apart.
\<close>

datatype pyfloat = Finite real | PosInf | NegInf | NaN

text \<open>The exponent \<open>e\<close> of a positive real \<open>x\<close>, that is \<open>2 powi e \<le> x < 2 powi (e + 1)\<close>,
  computed from the number of bits of an integer.\<close>

definition floor_log2 :: "real \<Rightarrow> int" where
  "floor_log2 x = (if 1 \<le> x then bitlen \<lfloor>x\<rfloor> - 1 else - bitlen (\<lceil>1 / x\<rceil> - 1))"

text \<open>The exponent of the binade of \<open>x\<close> in binary64: normal numbers have the exponents
  from \<open>-1022\<close>, and the subnormal numbers share the exponent \<open>-1022\<close>.\<close>

definition binade :: "real \<Rightarrow> int" where
  "binade x = max (floor_log2 \<bar>x\<bar>) (- 1022)"

text \<open>Rounding to the nearest integer, a tie to the even one.\<close>

definition round_half_even :: "real \<Rightarrow> int" where
  "round_half_even y =
     (let f = \<lfloor>y\<rfloor>; d = y - of_int f
      in if d < 1 / 2 then f else if 1 / 2 < d then f + 1 else if even f then f else f + 1)"

text \<open>Rounding of a real to 53 significant bits (the spacing of the floats in the binade of
  \<open>x\<close> is \<open>2 powi (binade x - 52)\<close>), the mode of every float operation of Python; and
  the float that results, an infinity when the rounded number is out of the range of the
  format.\<close>

definition round_nearest :: "real \<Rightarrow> real" where
  "round_nearest x =
     (if x = 0 then 0
      else (let ulp = 2 powi (binade x - 52)
            in sgn x * of_int (round_half_even (\<bar>x\<bar> / ulp)) * ulp))"

definition fl_round :: "real \<Rightarrow> pyfloat" where
  "fl_round x =
     (let r = round_nearest x
      in if 2 ^ 1024 \<le> r then PosInf else if r \<le> - (2 ^ 1024) then NegInf else Finite r)"

text \<open>\<^verbatim>\<open>a - b\<close> for two finite floats, \<^verbatim>\<open>x * y\<close> and \<^verbatim>\<open>x < y\<close> for any two floats: the
  exact result, rounded; a product with an infinity is an infinity or, with a zero, a NaN;
  a comparison with a NaN is false.\<close>

definition fl_sub :: "real \<Rightarrow> real \<Rightarrow> pyfloat" where
  "fl_sub a b = fl_round (a - b)"

fun fl_neg :: "pyfloat \<Rightarrow> pyfloat" where
  "fl_neg (Finite a) = Finite (- a)"
| "fl_neg PosInf = NegInf"
| "fl_neg NegInf = PosInf"
| "fl_neg NaN = NaN"

fun fl_mul :: "pyfloat \<Rightarrow> pyfloat \<Rightarrow> pyfloat" where
  "fl_mul (Finite a) (Finite b) = fl_round (a * b)"
| "fl_mul NaN y = NaN"
| "fl_mul x NaN = NaN"
| "fl_mul (Finite a) y = (if a = 0 then NaN else if 0 < a then y else fl_neg y)"
| "fl_mul x (Finite b) = (if b = 0 then NaN else if 0 < b then x else fl_neg x)"
| "fl_mul x y = (if x = y then PosInf else NegInf)"

fun fl_less :: "pyfloat \<Rightarrow> pyfloat \<Rightarrow> bool" where
  "fl_less NaN y = False"
| "fl_less x NaN = False"
| "fl_less (Finite a) (Finite b) = (a < b)"
| "fl_less NegInf NegInf = False"
| "fl_less NegInf y = True"
| "fl_less x PosInf = (x \<noteq> PosInf)"
| "fl_less x y = False"

subsection \<open>The pool\<close>

record datetime =
  dt_year :: nat
  dt_month :: nat
  dt_day :: nat
  dt_hour :: nat
  dt_minute :: nat
  dt_second :: nat

definition digit_char :: "nat \<Rightarrow> char" where
  "digit_char n = ''0123456789'' ! (n mod 10)"

text \<open>\<^verbatim>\<open>%m\<close>, \<^verbatim>\<open>%d\<close>, \<^verbatim>\<open>%H\<close>: two digits; \<^verbatim>\<open>%Y\<close>: the four digits of a year from
  1000 to 9999.\<close>

definition pad2 :: "nat \<Rightarrow> string" where
  "pad2 n = [digit_char (n div 10), digit_char n]"

definition pad4 :: "nat \<Rightarrow> string" where
  "pad4 n = [digit_char (n div 1000), digit_char (n div 100), digit_char (n div 10), digit_char n]"

definition strftime_Ymd_H :: "datetime \<Rightarrow> string" where
  "strftime_Ymd_H now = pad4 (dt_year now) @ pad2 (dt_month now) @ pad2 (dt_day now) @ ''_'' @ pad2 (dt_hour now)"

definition strftime_Ymd :: "datetime \<Rightarrow> string" where
  "strftime_Ymd now = pad4 (dt_year now) @ pad2 (dt_month now) @ pad2 (dt_day now)"

record 'a cache_entry =
  data :: 'a
  created_at :: real
  expires_at :: real
  location :: string

text \<open>The configuration dictionary: a missing key is \<open>None\<close>, and \<^verbatim>\<open>config.get(key, default)\<close>
  supplies the default.\<close>

record cache_config =
  cfg_weather_cache_ttl :: "real option"
  cfg_city_cache_ttl :: "real option"
  cfg_max_cache_size :: "int option"
  cfg_enable_async_refresh :: "bool option"

definition config_get :: "'v option \<Rightarrow> 'v \<Rightarrow> 'v" where
  "config_get field dflt = (case field of None \<Rightarrow> dflt | Some v \<Rightarrow> v)"

text \<open>The pool object. The fields \<^verbatim>\<open>_weather_cache\<close>, \<^verbatim>\<open>_city_cache\<close>, \<^verbatim>\<open>_access_order\<close>
  lose their leading underscore; the five counters of \<^verbatim>\<open>_stats\<close> are fields of their own.
  All methods run under the one re-entrant lock of the pool, so each is one atomic step.\<close>

record 'a WeatherCachePool =
  weather_cache_ttl :: real
  city_cache_ttl :: real
  max_cache_size :: int
  enable_async_refresh :: bool
  weather_cache :: "(string \<times> 'a cache_entry) list"
  city_cache :: "(string \<times> 'a cache_entry) list"
  access_order :: "(string \<times> real) list"
  weather_hits :: nat
  weather_misses :: nat
  city_hits :: nat
  city_misses :: nat
  evictions :: nat

definition init_pool :: "cache_config \<Rightarrow> 'a WeatherCachePool" where
  "init_pool config =
     \<lparr> weather_cache_ttl = config_get (cfg_weather_cache_ttl config) 3600,
       city_cache_ttl = config_get (cfg_city_cache_ttl config) 86400,
       max_cache_size = config_get (cfg_max_cache_size config) 50,
       enable_async_refresh = config_get (cfg_enable_async_refresh config) True,
       weather_cache = [], city_cache = [], access_order = [],
       weather_hits = 0, weather_misses = 0, city_hits = 0, city_misses = 0, evictions = 0 \<rparr>"

definition generate_weather_key :: "datetime \<Rightarrow> string \<Rightarrow> bool \<Rightarrow> string" where
  "generate_weather_key now loc hour_precision =
     (let time_key = (if hour_precision then strftime_Ymd_H now else strftime_Ymd now)
      in ''weather_'' @ loc @ ''_'' @ time_key)"

definition generate_city_key :: "string \<Rightarrow> string" where
  "generate_city_key loc = ''city_'' @ loc"

definition is_expired :: "real \<Rightarrow> 'a cache_entry \<Rightarrow> bool" where
  "is_expired time_time entry = (time_time > expires_at entry)"

text \<open>\<^verbatim>\<open>_need_refresh\<close>: \<open>time_time\<close> is the reading of \<^verbatim>\<open>time.time()\<close>. The two
  differences, \<^verbatim>\<open>1 - refresh_threshold\<close> and the product are float operations.\<close>

definition need_refresh :: "'a WeatherCachePool \<Rightarrow> real \<Rightarrow> 'a cache_entry \<Rightarrow> real \<Rightarrow> bool" where
  "need_refresh self time_time entry refresh_threshold =
     (if \<not> enable_async_refresh self then False
      else
        (let total_ttl = fl_sub (expires_at entry) (created_at entry);
             remaining_ttl = fl_sub (expires_at entry) time_time
         in fl_less remaining_ttl (fl_mul total_ttl (fl_sub 1 refresh_threshold))))"

text \<open>One round of the loop of \<^verbatim>\<open>_evict_lru\<close>.\<close>

definition evict_key :: "'a WeatherCachePool \<Rightarrow> string \<Rightarrow> 'a WeatherCachePool" where
  "evict_key self key =
     (let s1 = (if startswith key ''weather_''
                then self\<lparr>weather_cache := dict_pop (weather_cache self) key\<rparr>
                else if startswith key ''city_''
                then self\<lparr>city_cache := dict_pop (city_cache self) key\<rparr>
                else self)
      in s1\<lparr>access_order := dict_pop (access_order s1) key, evictions := evictions s1 + 1\<rparr>)"

definition evict_lru :: "'a WeatherCachePool \<Rightarrow> 'a WeatherCachePool" where
  "evict_lru self =
     (let total_entries = int (length (weather_cache self)) + int (length (city_cache self))
      in if total_entries < max_cache_size self then self
         else
           (let sorted_access = sort_key snd (access_order self)
            in foldl evict_key self
                 (map fst (slice_to sorted_access (total_entries - max_cache_size self + 1)))))"

text \<open>\<^verbatim>\<open>get_weather_data\<close>: \<open>now\<close> is the reading of \<^verbatim>\<open>datetime.now()\<close> for the key,
  \<open>t_check\<close> the reading of \<^verbatim>\<open>time.time()\<close> inside \<^verbatim>\<open>_is_expired\<close>, \<open>t_access\<close> the later
  reading stored in the access index. The result is the new pool and the returned value,
  \<open>None\<close> for Python's \<^verbatim>\<open>None\<close>.\<close>

definition get_weather_data ::
  "'a WeatherCachePool \<Rightarrow> datetime \<Rightarrow> real \<Rightarrow> real \<Rightarrow> string \<Rightarrow> 'a WeatherCachePool \<times> 'a option" where
  "get_weather_data self now t_check t_access loc =
     (let cache_key = generate_weather_key now loc True
      in case dict_get (weather_cache self) cache_key of
           Some entry \<Rightarrow>
             (if \<not> is_expired t_check entry
              then (self\<lparr>access_order := dict_setitem (access_order self) cache_key t_access,
                         weather_hits := weather_hits self + 1\<rparr>, Some (data entry))
              else (self\<lparr>weather_cache := dict_pop (weather_cache self) cache_key,
                         access_order := dict_pop (access_order self) cache_key,
                         weather_misses := weather_misses self + 1\<rparr>, None))
         | None \<Rightarrow> (self\<lparr>weather_misses := weather_misses self + 1\<rparr>, None))"

definition set_weather_data ::
  "'a WeatherCachePool \<Rightarrow> datetime \<Rightarrow> real \<Rightarrow> string \<Rightarrow> 'a \<Rightarrow> 'a WeatherCachePool" where
  "set_weather_data self now current_time loc weather_data =
     (let cache_key = generate_weather_key now loc True;
          entry = \<lparr> data = weather_data, created_at = current_time,
                    expires_at = current_time + weather_cache_ttl self, location = loc \<rparr>
      in evict_lru (self\<lparr>weather_cache := dict_setitem (weather_cache self) cache_key entry,
                         access_order := dict_setitem (access_order self) cache_key current_time\<rparr>))"

definition get_city_info ::
  "'a WeatherCachePool \<Rightarrow> real \<Rightarrow> real \<Rightarrow> string \<Rightarrow> 'a WeatherCachePool \<times> 'a option" where
  "get_city_info self t_check t_access loc =
     (let cache_key = generate_city_key loc
      in case dict_get (city_cache self) cache_key of
           Some entry \<Rightarrow>
             (if \<not> is_expired t_check entry
              then (self\<lparr>access_order := dict_setitem (access_order self) cache_key t_access,
                         city_hits := city_hits self + 1\<rparr>, Some (data entry))
              else (self\<lparr>city_cache := dict_pop (city_cache self) cache_key,
                         access_order := dict_pop (access_order self) cache_key,
                         city_misses := city_misses self + 1\<rparr>, None))
         | None \<Rightarrow> (self\<lparr>city_misses := city_misses self + 1\<rparr>, None))"

definition set_city_info ::
  "'a WeatherCachePool \<Rightarrow> real \<Rightarrow> string \<Rightarrow> 'a \<Rightarrow> 'a WeatherCachePool" where
  "set_city_info self current_time loc city_info =
     (let cache_key = generate_city_key loc;
          entry = \<lparr> data = city_info, created_at = current_time,
                    expires_at = current_time + city_cache_ttl self, location = loc \<rparr>
      in evict_lru (self\<lparr>city_cache := dict_setitem (city_cache self) cache_key entry,
                         access_order := dict_setitem (access_order self) cache_key current_time\<rparr>))"

definition clear_cache :: "'a WeatherCachePool \<Rightarrow> 'a WeatherCachePool" where
  "clear_cache self = self\<lparr>weather_cache := [], city_cache := [], access_order := []\<rparr>"

text \<open>\<^verbatim>\<open>clean_expired\<close>: the two list comprehensions and the two loops that delete the
  collected keys. The count of cleaned entries only feeds a log line.\<close>

definition del_weather_key :: "'a WeatherCachePool \<Rightarrow> string \<Rightarrow> 'a WeatherCachePool" where
  "del_weather_key self key =
     self\<lparr>weather_cache := dict_pop (weather_cache self) key,
          access_order := dict_pop (access_order self) key\<rparr>"

definition del_city_key :: "'a WeatherCachePool \<Rightarrow> string \<Rightarrow> 'a WeatherCachePool" where
  "del_city_key self key =
     self\<lparr>city_cache := dict_pop (city_cache self) key,
          access_order := dict_pop (access_order self) key\<rparr>"

definition clean_expired :: "'a WeatherCachePool \<Rightarrow> real \<Rightarrow> 'a WeatherCachePool" where
  "clean_expired self current_time =
     (let expired_weather_keys =
            map fst (filter (\<lambda>kv. current_time > expires_at (snd kv)) (weather_cache self));
          s1 = foldl del_weather_key self expired_weather_keys;
          expired_city_keys =
            map fst (filter (\<lambda>kv. current_time > expires_at (snd kv)) (city_cache s1))
      in foldl del_city_key s1 expired_city_keys)"

text \<open>The states a pool can be in: built by the constructor and changed by its methods,
  each with any arguments and any clock readings.\<close>

inductive reachable :: "'a WeatherCachePool \<Rightarrow> bool" where
  r_init: "reachable (init_pool config)"
| r_set_weather: "reachable p \<Longrightarrow> reachable (set_weather_data p now t loc v)"
| r_get_weather: "reachable p \<Longrightarrow> reachable (fst (get_weather_data p now t1 t2 loc))"
| r_set_city: "reachable p \<Longrightarrow> reachable (set_city_info p t loc v)"
| r_get_city: "reachable p \<Longrightarrow> reachable (fst (get_city_info p t1 t2 loc))"
| r_evict: "reachable p \<Longrightarrow> reachable (evict_lru p)"
| r_clear: "reachable p \<Longrightarrow> reachable (clear_cache p)"
| r_clean: "reachable p \<Longrightarrow> reachable (clean_expired p t)"

text \<open>The representation invariant of the pool: each dictionary has pairwise different
  keys, weather keys carry the prefix \<^verbatim>\<open>weather_\<close> and city keys the prefix \<^verbatim>\<open>city_\<close>,
  and the access index has exactly the keys of the two stores.\<close>

definition pool_inv :: "'a WeatherCachePool \<Rightarrow> bool" where
  "pool_inv p =
     (distinct (dict_keys (weather_cache p)) \<and> distinct (dict_keys (city_cache p)) \<and>
      distinct (dict_keys (access_order p)) \<and>
      list_all (\<lambda>k. startswith k ''weather_'') (dict_keys (weather_cache p)) \<and>
      list_all (\<lambda>k. startswith k ''city_'') (dict_keys (city_cache p)) \<and>
      set (dict_keys (access_order p)) =
        set (dict_keys (weather_cache p)) \<union> set (dict_keys (city_cache p)))"

definition total_entries :: "'a WeatherCachePool \<Rightarrow> int" where
  "total_entries p = int (length (weather_cache p)) + int (length (city_cache p))"

text \<open>Concrete configurations, clock readings and pool states used to run the model.\<close>

definition example_config :: cache_config where
  "example_config = \<lparr> cfg_weather_cache_ttl = Some 60, cfg_city_cache_ttl = None,
                       cfg_max_cache_size = Some 2, cfg_enable_async_refresh = Some False \<rparr>"

definition default_config :: cache_config where
  "default_config = \<lparr> cfg_weather_cache_ttl = None, cfg_city_cache_ttl = None,
                       cfg_max_cache_size = None, cfg_enable_async_refresh = None \<rparr>"

text \<open>The clock on 17 May 2024 at \<open>h:m:s\<close>: the reading of \<^verbatim>\<open>datetime.now()\<close> and the
  matching reading of \<^verbatim>\<open>time.time()\<close>, in seconds since 1 January 1970 (for a machine on
  UTC).\<close>

definition clock_at :: "nat \<Rightarrow> nat \<Rightarrow> nat \<Rightarrow> datetime" where
  "clock_at h m s =
     \<lparr> dt_year = 2024, dt_month = 5, dt_day = 17, dt_hour = h, dt_minute = m, dt_second = s \<rparr>"

definition time_at :: "nat \<Rightarrow> nat \<Rightarrow> nat \<Rightarrow> real" where
  "time_at h m s = 1715904000 + 3600 * real h + 60 * real m + real s"

definition example_entry :: "nat cache_entry" where
  "example_entry = \<lparr> data = 7, created_at = 0, expires_at = 100, location = ''Beijing'' \<rparr>"

definition example_full_pool :: "nat WeatherCachePool" where
  "example_full_pool =
     (init_pool example_config)
       \<lparr> weather_cache := [(''weather_Beijing_20240517_10'', example_entry)],
         city_cache := [(''city_Beijing'', example_entry)],
         access_order := [(''weather_Beijing_20240517_10'', time_at 10 30 20), (''city_Beijing'', time_at 10 30 10)] \<rparr>"


text \<open>A configuration with capacity zero, and the pool \<^verbatim>\<open>set_weather_data\<close> hands to the
  eviction when it is called on a new pool of that configuration at 10:30:00.\<close>

definition zero_config :: cache_config where
  "zero_config = \<lparr> cfg_weather_cache_ttl = Some 60, cfg_city_cache_ttl = None,
                    cfg_max_cache_size = Some 0, cfg_enable_async_refresh = Some False \<rparr>"

definition example_zero_pool :: "nat WeatherCachePool" where
  "example_zero_pool =
     (init_pool zero_config)
       \<lparr> weather_cache := [(''weather_Beijing_20240517_10'',
            \<lparr> data = 7, created_at = time_at 10 30 0, expires_at = time_at 10 30 0 + 60,
              location = ''Beijing'' \<rparr>)],
         access_order := [(''weather_Beijing_20240517_10'', time_at 10 30 0)] \<rparr>"

text \<open>The floats that Python reads from the literals \<^verbatim>\<open>0.8\<close> and \<^verbatim>\<open>0.3\<close>: the numbers of
  the format nearest to \<open>8 / 10\<close> and to \<open>3 / 10\<close>.\<close>

definition float_0_8 :: real where
  "float_0_8 = 3602879701896397 / 4503599627370496"

definition float_0_3 :: real where
  "float_0_3 = 5404319552844595 / 18014398509481984"

section \<open>The function handler (core/handle/functionHandler.py)\<close>

subsection \<open>Strings\<close>

text \<open>A \<open>char\<close> stands for one character of a Python string. The three string methods the
  handler uses: \<^verbatim>\<open>sep.join(xs)\<close>, \<^verbatim>\<open>sub in s\<close> and \<^verbatim>\<open>s.replace(old, new)\<close>, which
  replaces the occurrences of \<open>old\<close> found by a scan from the left, without overlap (for an
  empty \<open>old\<close> Python puts \<open>new\<close> in front of every character and at the end).\<close>

fun join :: "string \<Rightarrow> string list \<Rightarrow> string" where
  "join sep [] = []"
| "join sep [x] = x"
| "join sep (x # y # ys) = x @ sep @ join sep (y # ys)"

fun str_contains :: "string \<Rightarrow> string \<Rightarrow> bool" where
  "str_contains sub [] = (sub = [])"
| "str_contains sub (c # cs) = (startswith (c # cs) sub \<or> str_contains sub cs)"

function replace_scan :: "string \<Rightarrow> string \<Rightarrow> string \<Rightarrow> string" where
  "replace_scan old new [] = []"
| "replace_scan old new (c # cs) =
     (if old \<noteq> [] \<and> startswith (c # cs) old
      then new @ replace_scan old new (drop (length old) (c # cs))
      else c # replace_scan old new cs)"
  by pat_completeness auto
termination
  by (relation "measure (\<lambda>(old, new, s). length s)") (auto simp: neq_Nil_conv)

definition str_replace :: "string \<Rightarrow> string \<Rightarrow> string \<Rightarrow> string" where
  "str_replace s old new =
     (if old = [] then new @ concat (map (\<lambda>c. c # new) s) else replace_scan old new s)"

subsection \<open>Descriptions and the plugin loader\<close>

text \<open>One element of \<^verbatim>\<open>functions_desc\<close>: of the description blob the handler reads
  \<^verbatim>\<open>["function"]["name"]\<close> and rewrites \<^verbatim>\<open>["function"]["description"]\<close>. The list itself
  comes from \<^verbatim>\<open>FunctionRegistry.get_all_function_desc\<close>, which is not part of the source
  tree; it is an argument here.\<close>

record function_desc =
  fn_name :: string
  fn_description :: string

definition current_support_functions :: "function_desc list \<Rightarrow> string list" where
  "current_support_functions functions_desc = map fn_name functions_desc"

text \<open>The loop of \<^verbatim>\<open>modify_plugin_loader_des\<close>: the first description named
  \<^verbatim>\<open>plugin_loader\<close> is rewritten, then the loop breaks.\<close>

fun rewrite_plugin_loader :: "string \<Rightarrow> function_desc list \<Rightarrow> function_desc list" where
  "rewrite_plugin_loader func_names [] = []"
| "rewrite_plugin_loader func_names (function_desc # rest) =
     (if fn_name function_desc = ''plugin_loader''
      then function_desc\<lparr>fn_description :=
             str_replace (fn_description function_desc) ''[plugins]'' func_names\<rparr> # rest
      else function_desc # rewrite_plugin_loader func_names rest)"

definition modify_plugin_loader_des :: "string list \<Rightarrow> function_desc list \<Rightarrow> function_desc list" where
  "modify_plugin_loader_des func_names functions_desc =
     (if ''plugin_loader'' \<notin> set func_names then functions_desc
      else
        (let surport_plugins = filter (\<lambda>func. func \<noteq> ''plugin_loader'') func_names
         in rewrite_plugin_loader (join '','' surport_plugins) functions_desc))"

text \<open>The two last steps of the constructor: the names are read off the descriptions and
  handed to \<^verbatim>\<open>modify_plugin_loader_des\<close>.\<close>

definition substitution_step :: "function_desc list \<Rightarrow> function_desc list" where
  "substitution_step functions_desc =
     modify_plugin_loader_des (current_support_functions functions_desc) functions_desc"

subsection \<open>Python values and exceptions\<close>

text \<open>The values \<^verbatim>\<open>json.loads\<close> can return, and the dictionaries built from them. A
  dictionary is a list of pairs in insertion order; its keys may be any hashable value,
  since \<^verbatim>\<open>dict.update\<close> accepts a list of pairs. Floats are exact reals (infinities and
  NaN are outside the model).\<close>

datatype pyval =
    PNone
  | PBool bool
  | PInt int
  | PFloat real
  | PStr string
  | PList "pyval list"
  | PDict "(pyval \<times> pyval) list"

text \<open>The exceptions of the model. The last constructor stands for an exception that is
  not an instance of \<^verbatim>\<open>Exception\<close> (\<^verbatim>\<open>KeyboardInterrupt\<close>, \<^verbatim>\<open>SystemExit\<close>,
  \<^verbatim>\<open>GeneratorExit\<close>, \<^verbatim>\<open>asyncio.CancelledError\<close>), which a handler \<^verbatim>\<open>except Exception\<close>
  lets pass; its argument is the name of the class.\<close>

datatype pyexc =
    JSONDecodeError string
  | ValueError string
  | TypeError string
  | KeyError string
  | OtherException string
  | SystemExiting string

fun is_Exception :: "pyexc \<Rightarrow> bool" where
  "is_Exception (SystemExiting _) = False"
| "is_Exception _ = True"

fun is_JSONDecodeError :: "pyexc \<Rightarrow> bool" where
  "is_JSONDecodeError (JSONDecodeError _) = True"
| "is_JSONDecodeError _ = False"

text \<open>Key equality of a dictionary: \<^verbatim>\<open>True == 1 == 1.0\<close>, numbers compare by value, all
  other hashable values structurally.\<close>

fun num_value :: "pyval \<Rightarrow> real option" where
  "num_value (PBool b) = Some (if b then 1 else 0)"
| "num_value (PInt i) = Some (real_of_int i)"
| "num_value (PFloat r) = Some r"
| "num_value _ = None"

definition key_eq :: "pyval \<Rightarrow> pyval \<Rightarrow> bool" where
  "key_eq a b =
     (case (num_value a, num_value b) of
        (Some x, Some y) \<Rightarrow> x = y
      | (None, None) \<Rightarrow> a = b
      | _ \<Rightarrow> False)"

fun hashable :: "pyval \<Rightarrow> bool" where
  "hashable (PList _) = False"
| "hashable (PDict _) = False"
| "hashable _ = True"

text \<open>\<^verbatim>\<open>d[k] = v\<close> and \<^verbatim>\<open>d.get(k)\<close> on such a dictionary: an equal key keeps its place and
  its first spelling.\<close>

fun pydict_setitem :: "(pyval \<times> pyval) list \<Rightarrow> pyval \<Rightarrow> pyval \<Rightarrow> (pyval \<times> pyval) list" where
  "pydict_setitem [] k v = [(k, v)]"
| "pydict_setitem ((k', v') # d) k v =
     (if key_eq k' k then (k', v) # d else (k', v') # pydict_setitem d k v)"

fun pydict_get :: "(pyval \<times> pyval) list \<Rightarrow> pyval \<Rightarrow> pyval option" where
  "pydict_get [] k = None"
| "pydict_get ((k', v') # d) k = (if key_eq k' k then Some v' else pydict_get d k)"

text \<open>\<^verbatim>\<open>merged_args.update(part_args)\<close>. A dictionary argument is merged key by key. Any
  other argument is iterated, and each element must be a sequence of length two, read as a
  key and a value: a number, a boolean or \<^verbatim>\<open>None\<close> is not iterable (\<^verbatim>\<open>TypeError\<close>), a
  string yields its characters (each a string of length one, so a \<^verbatim>\<open>ValueError\<close>
  unless the string is empty), a list yields its elements.\<close>

definition merge_object :: "(pyval \<times> pyval) list \<Rightarrow> (pyval \<times> pyval) list \<Rightarrow> (pyval \<times> pyval) list" where
  "merge_object d kvs = foldl (\<lambda>d kv. pydict_setitem d (fst kv) (snd kv)) d kvs"

fun pair_of_element :: "pyval \<Rightarrow> pyexc + (pyval \<times> pyval)" where
  "pair_of_element (PList [k, v]) = Inr (k, v)"
| "pair_of_element (PList _) = Inl (ValueError ''dictionary update sequence element has wrong length; 2 is required'')"
| "pair_of_element (PStr [a, b]) = Inr (PStr [a], PStr [b])"
| "pair_of_element (PStr _) = Inl (ValueError ''dictionary update sequence element has wrong length; 2 is required'')"
| "pair_of_element (PDict [(k1, v1), (k2, v2)]) = Inr (k1, k2)"
| "pair_of_element (PDict _) = Inl (ValueError ''dictionary update sequence element has wrong length; 2 is required'')"
| "pair_of_element _ = Inl (TypeError ''cannot convert dictionary update sequence element to a sequence'')"

fun update_from_seq :: "(pyval \<times> pyval) list \<Rightarrow> pyval list \<Rightarrow> pyexc + (pyval \<times> pyval) list" where
  "update_from_seq d [] = Inr d"
| "update_from_seq d (x # xs) =
     (case pair_of_element x of
        Inl e \<Rightarrow> Inl e
      | Inr (k, v) \<Rightarrow>
          if hashable k then update_from_seq (pydict_setitem d k v) xs
          else Inl (TypeError ''unhashable type''))"

fun dict_update :: "(pyval \<times> pyval) list \<Rightarrow> pyval \<Rightarrow> pyexc + (pyval \<times> pyval) list" where
  "dict_update d (PDict kvs) = Inr (merge_object d kvs)"
| "dict_update d (PList xs) = update_from_seq d xs"
| "dict_update d (PStr s) = update_from_seq d (map (\<lambda>c. PStr [c]) s)"
| "dict_update d _ = Inl (TypeError ''object is not iterable'')"

text \<open>\<^verbatim>\<open>func(conn, **arguments)\<close>: the starred argument must be a mapping and every key a
  string.\<close>

fun kwargs_of :: "(pyval \<times> pyval) list \<Rightarrow> (string \<times> pyval) list option" where
  "kwargs_of [] = Some []"
| "kwargs_of ((PStr k, v) # d) = map_option (\<lambda>kw. (k, v) # kw) (kwargs_of d)"
| "kwargs_of _ = None"

fun call_with_kwargs :: "((string \<times> pyval) list \<Rightarrow> pyexc + 'r) \<Rightarrow> pyval \<Rightarrow> pyexc + 'r" where
  "call_with_kwargs f (PDict d) =
     (case kwargs_of d of
        Some kw \<Rightarrow> f kw
      | None \<Rightarrow> Inl (TypeError ''keywords must be strings''))"
| "call_with_kwargs f _ = Inl (TypeError ''argument after ** must be a mapping'')"

text \<open>\<^verbatim>\<open>d[key]\<close> on the dictionary \<^verbatim>\<open>function_call_data\<close>, whose values are strings.\<close>

definition getitem :: "(string \<rightharpoonup> string) \<Rightarrow> string \<Rightarrow> pyexc + string" where
  "getitem d key = (case d key of None \<Rightarrow> Inl (KeyError key) | Some v \<Rightarrow> Inr v)"

subsection \<open>The registry and the responses\<close>

text \<open>\<^verbatim>\<open>plugins_func/register.py\<close> is not part of the source tree. Of its enumerations the
  model has the members the handler and the plugins name and one constructor for any other
  member; \<^verbatim>\<open>ActionResponse\<close> has the three fields the handler fills. The registry is a
  finite map from names to items, \<^verbatim>\<open>get_function\<close> its lookup, with \<open>None\<close> for a name
  that is not registered. A callable takes the connection (or \<open>None\<close> when it is called
  without one) and the keyword arguments, and returns a value or raises.\<close>

datatype ToolType = SYSTEM_CTL | IOT_CTL | WAIT | CHANGE_SYS_PROMPT | OtherToolType string

datatype Action = NOTFOUND | REQLLM | OtherAction string

record ActionResponse =
  action :: Action
  result :: string
  response :: string

record ('c, 'r) funcItem =
  tool_type :: ToolType
  func :: "'c option \<Rightarrow> (string \<times> pyval) list \<Rightarrow> pyexc + 'r"

text \<open>The text of the not-found response is a Chinese sentence in the source (nine
  characters, "no matching function found"); it is written here as the bytes of its UTF-8
  encoding.\<close>

definition not_found_text :: string where
  "not_found_text =
     [CHR 0xE6, CHR 0xB2, CHR 0xA1, CHR 0xE6, CHR 0x9C, CHR 0x89, CHR 0xE6, CHR 0x89, CHR 0xBE,
      CHR 0xE5, CHR 0x88, CHR 0xB0, CHR 0xE5, CHR 0xAF, CHR 0xB9, CHR 0xE5, CHR 0xBA, CHR 0x94,
      CHR 0xE7, CHR 0x9A, CHR 0x84, CHR 0xE5, CHR 0x87, CHR 0xBD, CHR 0xE6, CHR 0x95, CHR 0xB0]"

definition not_found_response :: ActionResponse where
  "not_found_response = \<lparr> action = NOTFOUND, result = not_found_text, response = [] \<rparr>"

text \<open>What the handler hands back: a response of its own, the value the callable
  returned, or \<^verbatim>\<open>None\<close>.\<close>

datatype 'r retval = Response ActionResponse | FuncResult 'r | ReturnNone

text \<open>The lines the handler and the registration write to the log, in order.\<close>

datatype log_entry =
    LOG_auto_added string
  | LOG_received
  | LOG_raw_arguments string
  | LOG_concat_detected pyexc
  | LOG_repaired pyval
  | LOG_calling string pyval
  | LOG_error pyexc

subsection \<open>Registration of the configured functions\<close>

text \<open>\<^verbatim>\<open>register_config_functions\<close> up to the list it registers: the argument is the value
  of the key \<^verbatim>\<open>functions\<close> of the selected intent configuration (\<open>None\<close> when the key is
  missing), the result the list \<^verbatim>\<open>config_functions\<close> the registration loop runs over and
  the lines logged on the way. The loop calls \<^verbatim>\<open>register_function\<close> of the registry,
  which is not part of the source tree.\<close>

definition force_function :: "string \<Rightarrow> string list \<times> log_entry list \<Rightarrow> string list \<times> log_entry list" where
  "force_function name st =
     (if name \<notin> set (fst st) then (fst st @ [name], snd st @ [LOG_auto_added name]) else st)"

definition register_config_functions :: "string list option \<Rightarrow> string list \<times> log_entry list" where
  "register_config_functions functions =
     (let config_functions = config_get functions [];
          st0 = (config_functions, []);
          st1 = force_function ''send_email'' st0;
          st2 = force_function ''save_weather_to_db'' st1;
          st3 = force_function ''onvif_camera_control'' st2;
          st4 = force_function ''vision_camera_analysis'' st3
      in st4)"

text \<open>The forced names, in the order of the four tests.\<close>

definition forced_functions :: "string list" where
  "forced_functions =
     [''send_email'', ''save_weather_to_db'', ''onvif_camera_control'', ''vision_camera_analysis'']"

subsection \<open>Decoding the arguments\<close>

text \<open>\<^verbatim>\<open>json.loads\<close> belongs to the Python library; it is the argument \<open>loads\<close> of the model,
  a function from the text to the decoded value or the exception raised.

  The loop that cuts the text: the state is \<^verbatim>\<open>json_parts\<close>, \<^verbatim>\<open>current_part\<close> and
  \<^verbatim>\<open>brace_count\<close>.\<close>

fun split_loop :: "string \<Rightarrow> string list \<Rightarrow> string \<Rightarrow> int \<Rightarrow> string list \<times> string" where
  "split_loop [] json_parts current_part brace_count = (json_parts, current_part)"
| "split_loop (c # cs) json_parts current_part brace_count =
     (if c = CHR ''{'' then
        (if brace_count = 0 \<and> current_part \<noteq> []
         then split_loop cs (json_parts @ [current_part]) [c] (brace_count + 1)
         else split_loop cs json_parts (current_part @ [c]) (brace_count + 1))
      else if c = CHR ''}'' then split_loop cs json_parts (current_part @ [c]) (brace_count - 1)
      else split_loop cs json_parts (current_part @ [c]) brace_count)"

definition split_json_parts :: "string \<Rightarrow> string list" where
  "split_json_parts arguments =
     (case split_loop arguments [] [] 0 of
        (json_parts, current_part) \<Rightarrow>
          if current_part \<noteq> [] then json_parts @ [current_part] else json_parts)"

text \<open>The loop that parses and merges the parts. The inner handler catches
  \<^verbatim>\<open>json.JSONDecodeError\<close> only; any other exception of \<^verbatim>\<open>json.loads\<close> or of
  \<^verbatim>\<open>update\<close> leaves the loop.\<close>

fun merge_parts ::
  "(string \<Rightarrow> pyexc + pyval) \<Rightarrow> string list \<Rightarrow> (pyval \<times> pyval) list \<Rightarrow> pyexc + (pyval \<times> pyval) list" where
  "merge_parts loads [] merged_args = Inr merged_args"
| "merge_parts loads (part # parts) merged_args =
     (case loads part of
        Inl e \<Rightarrow> if is_JSONDecodeError e then merge_parts loads parts merged_args else Inl e
      | Inr part_args \<Rightarrow>
          (case dict_update merged_args part_args of
             Inl e \<Rightarrow> if is_JSONDecodeError e then merge_parts loads parts merged_args else Inl e
           | Inr merged_args' \<Rightarrow> merge_parts loads parts merged_args'))"

text \<open>The pattern \<^verbatim>\<open>'}{"'\<close>.\<close>

definition concat_pattern :: string where
  "concat_pattern = [CHR ''}'', CHR ''{'', CHR 0x22]"

text \<open>Lines 124 to 165: the decoded arguments or the exception raised, with the lines
  logged on the way.\<close>

definition decode_arguments ::
  "(string \<Rightarrow> pyexc + pyval) \<Rightarrow> string \<Rightarrow> log_entry list \<times> (pyexc + pyval)" where
  "decode_arguments loads arguments =
     (if arguments \<noteq> [] then
        (case loads arguments of
           Inr v \<Rightarrow> ([], Inr v)
         | Inl e \<Rightarrow>
             if is_JSONDecodeError e then
               (if str_contains concat_pattern arguments then
                  (case merge_parts loads (split_json_parts arguments) [] of
                     Inl e' \<Rightarrow> ([LOG_concat_detected e], Inl e')
                   | Inr merged_args \<Rightarrow>
                       ([LOG_concat_detected e, LOG_repaired (PDict merged_args)],
                        Inr (PDict merged_args)))
                else ([], Inl e))
             else ([], Inl e))
      else ([], Inr (PDict [])))"

subsection \<open>The dispatcher\<close>

text \<open>The body of the \<^verbatim>\<open>try\<close> block of \<^verbatim>\<open>handle_llm_function_call\<close>: the lines logged
  and either the value returned or the exception that leaves the block.\<close>

definition handle_body ::
  "(string \<rightharpoonup> ('c, 'r) funcItem) \<Rightarrow> (string \<Rightarrow> pyexc + pyval) \<Rightarrow> 'c \<Rightarrow> (string \<rightharpoonup> string)
     \<Rightarrow> log_entry list \<times> (pyexc + 'r retval)" where
  "handle_body function_registry loads conn function_call_data =
     (case getitem function_call_data ''name'' of
        Inl e \<Rightarrow> ([LOG_received], Inl e)
      | Inr function_name \<Rightarrow>
          (case function_registry function_name of
             None \<Rightarrow> ([LOG_received], Inr (Response not_found_response))
           | Some funcItem \<Rightarrow>
               (case getitem function_call_data ''arguments'' of
                  Inl e \<Rightarrow> ([LOG_received], Inl e)
                | Inr arguments \<Rightarrow>
                    (case decode_arguments loads arguments of
                       (lg, Inl e) \<Rightarrow> ([LOG_received, LOG_raw_arguments arguments] @ lg, Inl e)
                     | (lg, Inr args) \<Rightarrow>
                         (let lg' = [LOG_received, LOG_raw_arguments arguments] @ lg
                                      @ [LOG_calling function_name args]
                          in if tool_type funcItem = SYSTEM_CTL \<or> tool_type funcItem = IOT_CTL
                             then (lg', map_sum id FuncResult
                                          (call_with_kwargs (func funcItem (Some conn)) args))
                             else if tool_type funcItem = WAIT
                             then (lg', map_sum id FuncResult
                                          (call_with_kwargs (func funcItem None) args))
                             else if tool_type funcItem = CHANGE_SYS_PROMPT
                             then (lg', map_sum id FuncResult
                                          (call_with_kwargs (func funcItem (Some conn)) args))
                             else (lg', Inr (Response not_found_response)))))))"

text \<open>\<^verbatim>\<open>handle_llm_function_call\<close>: the handler \<^verbatim>\<open>except Exception\<close> logs the exception
  and falls through to \<^verbatim>\<open>return None\<close>. \<open>Inl\<close> in the result is an exception that leaves
  the method.\<close>

definition handle_llm_function_call ::
  "(string \<rightharpoonup> ('c, 'r) funcItem) \<Rightarrow> (string \<Rightarrow> pyexc + pyval) \<Rightarrow> 'c \<Rightarrow> (string \<rightharpoonup> string)
     \<Rightarrow> log_entry list \<times> (pyexc + 'r retval)" where
  "handle_llm_function_call function_registry loads conn function_call_data =
     (case handle_body function_registry loads conn function_call_data of
        (lg, Inr r) \<Rightarrow> (lg, Inr r)
      | (lg, Inl e) \<Rightarrow>
          if is_Exception e then (lg @ [LOG_error e], Inr ReturnNone) else (lg, Inl e))"

subsection \<open>Notions used to state the properties of the repair\<close>

text \<open>The brace depth of a text: opening braces minus closing braces, as
  \<^verbatim>\<open>brace_count\<close> counts them (braces inside string literals included).\<close>

fun brace_depth :: "string \<Rightarrow> int" where
  "brace_depth [] = 0"
| "brace_depth (c # cs) =
     (if c = CHR ''{'' then 1 else if c = CHR ''}'' then - 1 else 0) + brace_depth cs"

text \<open>The objects among the parsed parts, in the order of the parts, and the binding that
  the last of them gives to a key.\<close>

definition parsed_objects :: "(string \<Rightarrow> pyexc + pyval) \<Rightarrow> string list \<Rightarrow> (pyval \<times> pyval) list list" where
  "parsed_objects loads parts =
     concat (map (\<lambda>p. case loads p of Inr (PDict kvs) \<Rightarrow> [kvs] | _ \<Rightarrow> []) parts)"

definition last_binding :: "(pyval \<times> pyval) list list \<Rightarrow> pyval \<Rightarrow> pyval option" where
  "last_binding objs k =
     (case filter (\<lambda>kv. key_eq (fst kv) k) (concat objs) of
        [] \<Rightarrow> None
      | kvs \<Rightarrow> Some (snd (last kvs)))"

text \<open>The places where a list of parts is cut, each given by the text in front of the cut;
  and the places of a text \<open>cs\<close>, read after \<open>done\<close> at brace count \<open>bc\<close>, where an
  opening brace stands at brace count zero behind a non-empty text.\<close>

definition part_boundaries :: "string list \<Rightarrow> string set" where
  "part_boundaries ps = {concat (take j ps) | j. 0 < j \<and> j < length ps}"

definition cut_prefixes :: "string \<Rightarrow> int \<Rightarrow> string \<Rightarrow> string set" where
  "cut_prefixes done bc cs =
     {done @ x | x v. cs = x @ v \<and> v \<noteq> [] \<and> hd v = CHR ''{'' \<and> bc + brace_depth x = 0 \<and> done @ x \<noteq> []}"

subsection \<open>Concrete inputs of the function handler\<close>

text \<open>A small list of descriptions.\<close>

definition example_functions_desc :: "function_desc list" where
  "example_functions_desc =
     [\<lparr> fn_name = ''handle_exit_intent'', fn_description = ''exit'' \<rparr>,
      \<lparr> fn_name = ''plugin_loader'', fn_description = ''plugins: [plugins].'' \<rparr>,
      \<lparr> fn_name = ''get_time'', fn_description = ''time'' \<rparr>]"

text \<open>A list in which the description of the plugin loader has a bracket in front of the
  token and the only other function is called \<^verbatim>\<open>plugins\<close>.\<close>

definition bracket_functions_desc :: "function_desc list" where
  "bracket_functions_desc =
     [\<lparr> fn_name = ''plugin_loader'', fn_description = ''[[plugins]]'' \<rparr>,
      \<lparr> fn_name = ''plugins'', fn_description = ''p'' \<rparr>]"

text \<open>The results of \<^verbatim>\<open>json.loads\<close> on the payloads and fragments used in the examples
  below (for any other text the table answers with a decode error; it is only asked about
  the texts listed).\<close>

definition loads_example :: "string \<Rightarrow> pyexc + pyval" where
  \<open>loads_example s =
     (if s = ''{"a":1}'' then Inr (PDict [(PStr ''a'', PInt 1)])
      else if s = ''{"b":2}'' then Inr (PDict [(PStr ''b'', PInt 2)])
      else if s = ''{"c":3}'' then Inr (PDict [(PStr ''c'', PInt 3)])
      else if s = ''1'' then Inr (PInt 1)
      else if s = ''{"a":1}{"b":2}'' then Inl (JSONDecodeError ''Extra data: line 1 column 8 (char 7)'')
      else if s = ''{"a":1}{invalid}{"b":2}'' then Inl (JSONDecodeError ''Extra data: line 1 column 8 (char 7)'')
      else if s = ''{invalid}'' then
        Inl (JSONDecodeError ''Expecting property name enclosed in double quotes: line 1 column 2 (char 1)'')
      else if s = ''1{"a":1}{"b":2}'' then Inl (JSONDecodeError ''Extra data: line 1 column 2 (char 1)'')
      else if s = ''{"a":1}x{"b":2}{"c":3}'' then Inl (JSONDecodeError ''Extra data: line 1 column 8 (char 7)'')
      else if s = ''{"a":1}x'' then Inl (JSONDecodeError ''Extra data: line 1 column 8 (char 7)'')
      else if s = ''not json at all'' then Inl (JSONDecodeError ''Expecting value: line 1 column 1 (char 0)'')
      else Inl (JSONDecodeError ''Expecting value: line 1 column 1 (char 0)''))\<close>

text \<open>A registry with two callables of type \<^verbatim>\<open>SYSTEM_CTL\<close>: one returns its keyword
  arguments, the other raises.\<close>

definition example_registry :: "string \<rightharpoonup> (unit, (string \<times> pyval) list) funcItem" where
  "example_registry =
     [''echo'' \<mapsto> \<lparr> tool_type = SYSTEM_CTL, func = (\<lambda>conn kwargs. Inr kwargs) \<rparr>,
      ''broken'' \<mapsto> \<lparr> tool_type = SYSTEM_CTL,
                       func = (\<lambda>conn kwargs. Inl (OtherException ''connection refused'')) \<rparr>]"

text \<open>A registry whose callable raises \<^verbatim>\<open>KeyboardInterrupt\<close>.\<close>

definition interrupting_registry :: "string \<rightharpoonup> (unit, (string \<times> pyval) list) funcItem" where
  "interrupting_registry =
     [''interrupted'' \<mapsto> \<lparr> tool_type = SYSTEM_CTL,
                            func = (\<lambda>conn kwargs. Inl (SystemExiting ''KeyboardInterrupt'')) \<rparr>]"

definition call_data :: "string \<Rightarrow> string \<Rightarrow> (string \<rightharpoonup> string)" where
  "call_data name arguments = [''name'' \<mapsto> name, ''arguments'' \<mapsto> arguments]"

section \<open>Proofs about the cache pool\<close>

text \<open>The definitions that a run of the model on a concrete input unfolds.\<close>

lemmas eval_defs =
  init_pool_def config_get_def set_weather_data_def get_weather_data_def set_city_info_def
  get_city_info_def evict_lru_def evict_key_def Let_def generate_weather_key_def
  generate_city_key_def strftime_Ymd_H_def pad2_def pad4_def digit_char_def dict_get_def
  dict_pop_def slice_to_def startswith_def is_expired_def total_entries_def

lemma dict_keys_setitem:
  "dict_keys (dict_setitem d k v) = (if k \<in> set (dict_keys d) then dict_keys d else dict_keys d @ [k])"
proof (induction d)
  case Nil
  show ?case by (simp add: dict_keys_def)
next
  case (Cons a d)
  then show ?case by (cases a) (auto simp: dict_keys_def)
qed

lemma dict_keys_setitem_set: "set (dict_keys (dict_setitem d k v)) = insert k (set (dict_keys d))"
  by (auto simp: dict_keys_setitem)

lemma dict_keys_setitem_distinct:
  "distinct (dict_keys d) \<Longrightarrow> distinct (dict_keys (dict_setitem d k v))"
  by (simp add: dict_keys_setitem)

lemma dict_keys_pop: "dict_keys (dict_pop d k) = removeAll k (dict_keys d)"
  by (induction d) (auto simp: dict_keys_def dict_pop_def)

lemma dict_keys_pop_set: "set (dict_keys (dict_pop d k)) = set (dict_keys d) - {k}"
  by (simp add: dict_keys_pop)

lemma dict_keys_pop_distinct: "distinct (dict_keys d) \<Longrightarrow> distinct (dict_keys (dict_pop d k))"
  by (simp add: dict_keys_pop distinct_removeAll)

lemma dict_get_setitem: "dict_get (dict_setitem d k v) k' = (if k' = k then Some v else dict_get d k')"
  by (induction d) (auto simp: dict_get_def)

lemma dict_get_pop: "dict_get (dict_pop d k) k' = (if k' = k then None else dict_get d k')"
  by (induction d) (auto simp: dict_get_def dict_pop_def)

lemma dict_get_Some_key: "dict_get d k = Some v \<Longrightarrow> k \<in> set (dict_keys d)"
  by (auto simp: dict_get_def dict_keys_def dest: map_of_SomeD intro: rev_image_eqI)

lemma list_all_keys_setitem:
  "list_all P (dict_keys d) \<Longrightarrow> P k \<Longrightarrow> list_all P (dict_keys (dict_setitem d k v))"
  by (simp add: list_all_iff dict_keys_setitem_set)

lemma list_all_keys_pop:
  "list_all P (dict_keys d) \<Longrightarrow> list_all P (dict_keys (dict_pop d k))"
  by (simp add: list_all_iff dict_keys_pop_set)

lemma startswith_append [simp]: "startswith (p @ s) p"
  by (simp add: startswith_def)

lemma not_weather_and_city: "startswith k ''city_'' \<Longrightarrow> \<not> startswith k ''weather_''"
  by (cases k) (auto simp: startswith_def)

lemma weather_key_prefix: "startswith (generate_weather_key now loc h) ''weather_''"
  unfolding generate_weather_key_def Let_def by (rule startswith_append)

lemma city_key_prefix: "startswith (generate_city_key loc) ''city_''"
  unfolding generate_city_key_def by (rule startswith_append)

lemma pool_inv_init: "pool_inv (init_pool config)"
  by (simp add: pool_inv_def init_pool_def dict_keys_def)

lemma pool_inv_clear: "pool_inv p \<Longrightarrow> pool_inv (clear_cache p)"
  by (simp add: pool_inv_def clear_cache_def dict_keys_def)

lemma pool_inv_evict_key: "pool_inv p \<Longrightarrow> pool_inv (evict_key p key)"
  unfolding pool_inv_def evict_key_def Let_def
  by (auto simp: dict_keys_pop_set dict_keys_pop_distinct list_all_keys_pop list_all_iff
      dest: not_weather_and_city)

lemma pool_inv_foldl_evict: "pool_inv p \<Longrightarrow> pool_inv (foldl evict_key p ks)"
  by (induction ks arbitrary: p) (simp_all add: pool_inv_evict_key)

lemma pool_inv_evict_lru: "pool_inv p \<Longrightarrow> pool_inv (evict_lru p)"
  by (simp add: evict_lru_def Let_def pool_inv_foldl_evict)

lemma pool_inv_put_weather:
  assumes "pool_inv p" and "startswith key ''weather_''"
  shows "pool_inv (p\<lparr>weather_cache := dict_setitem (weather_cache p) key e,
                     access_order := dict_setitem (access_order p) key t\<rparr>)"
  using assms unfolding pool_inv_def
  by (auto simp: dict_keys_setitem_set dict_keys_setitem_distinct list_all_keys_setitem)

lemma pool_inv_put_city:
  assumes "pool_inv p" and "startswith key ''city_''"
  shows "pool_inv (p\<lparr>city_cache := dict_setitem (city_cache p) key e,
                     access_order := dict_setitem (access_order p) key t\<rparr>)"
  using assms unfolding pool_inv_def
  by (auto simp: dict_keys_setitem_set dict_keys_setitem_distinct list_all_keys_setitem)

lemma pool_inv_set_weather: "pool_inv p \<Longrightarrow> pool_inv (set_weather_data p now t loc v)"
  unfolding set_weather_data_def Let_def
  by (intro pool_inv_evict_lru pool_inv_put_weather weather_key_prefix)

lemma pool_inv_set_city: "pool_inv p \<Longrightarrow> pool_inv (set_city_info p t loc v)"
  unfolding set_city_info_def Let_def
  by (intro pool_inv_evict_lru pool_inv_put_city city_key_prefix)

lemma pool_inv_del_weather:
  "pool_inv p \<Longrightarrow> startswith key ''weather_'' \<Longrightarrow> pool_inv (del_weather_key p key)"
  unfolding pool_inv_def del_weather_key_def
  by (auto simp: dict_keys_pop_set dict_keys_pop_distinct list_all_keys_pop list_all_iff
      dest: not_weather_and_city)

lemma pool_inv_del_city:
  "pool_inv p \<Longrightarrow> startswith key ''city_'' \<Longrightarrow> pool_inv (del_city_key p key)"
  unfolding pool_inv_def del_city_key_def
  by (auto simp: dict_keys_pop_set dict_keys_pop_distinct list_all_keys_pop list_all_iff
      dest: not_weather_and_city)

lemma pool_inv_touch:
  assumes "pool_inv p" and "key \<in> set (dict_keys (weather_cache p)) \<union> set (dict_keys (city_cache p))"
  shows "pool_inv (p\<lparr>access_order := dict_setitem (access_order p) key t\<rparr>)"
  using assms unfolding pool_inv_def
  by (auto simp: dict_keys_setitem_set dict_keys_setitem_distinct)

lemma pool_inv_get_weather: "pool_inv p \<Longrightarrow> pool_inv (fst (get_weather_data p now t1 t2 loc))"
proof -
  assume inv: "pool_inv p"
  let ?k = "generate_weather_key now loc True"
  show ?thesis
  proof (cases "dict_get (weather_cache p) ?k")
    case None
    with inv show ?thesis by (simp add: get_weather_data_def Let_def pool_inv_def)
  next
    case (Some entry)
    then have mem: "?k \<in> set (dict_keys (weather_cache p)) \<union> set (dict_keys (city_cache p))"
      by (simp add: dict_get_Some_key)
    have a: "pool_inv (p\<lparr>access_order := dict_setitem (access_order p) ?k t2\<rparr>)"
      by (rule pool_inv_touch [OF inv mem])
    have b: "pool_inv (del_weather_key p ?k)"
      by (rule pool_inv_del_weather [OF inv weather_key_prefix])
    from a b Some show ?thesis
      by (simp add: get_weather_data_def Let_def del_weather_key_def pool_inv_def)
  qed
qed

lemma pool_inv_get_city: "pool_inv p \<Longrightarrow> pool_inv (fst (get_city_info p t1 t2 loc))"
proof -
  assume inv: "pool_inv p"
  let ?k = "generate_city_key loc"
  show ?thesis
  proof (cases "dict_get (city_cache p) ?k")
    case None
    with inv show ?thesis by (simp add: get_city_info_def Let_def pool_inv_def)
  next
    case (Some entry)
    then have mem: "?k \<in> set (dict_keys (weather_cache p)) \<union> set (dict_keys (city_cache p))"
      by (simp add: dict_get_Some_key)
    have a: "pool_inv (p\<lparr>access_order := dict_setitem (access_order p) ?k t2\<rparr>)"
      by (rule pool_inv_touch [OF inv mem])
    have b: "pool_inv (del_city_key p ?k)"
      by (rule pool_inv_del_city [OF inv city_key_prefix])
    from a b Some show ?thesis
      by (simp add: get_city_info_def Let_def del_city_key_def pool_inv_def)
  qed
qed

lemma pool_inv_foldl_del_weather:
  "pool_inv p \<Longrightarrow> list_all (\<lambda>k. startswith k ''weather_'') ks \<Longrightarrow> pool_inv (foldl del_weather_key p ks)"
  by (induction ks arbitrary: p) (simp_all add: pool_inv_del_weather)

lemma pool_inv_foldl_del_city:
  "pool_inv p \<Longrightarrow> list_all (\<lambda>k. startswith k ''city_'') ks \<Longrightarrow> pool_inv (foldl del_city_key p ks)"
  by (induction ks arbitrary: p) (simp_all add: pool_inv_del_city)

lemma list_all_filter_keys:
  "list_all P (dict_keys d) \<Longrightarrow> list_all P (map fst (filter Q d))"
  by (auto simp: list_all_iff dict_keys_def)

lemma pool_inv_clean: "pool_inv p \<Longrightarrow> pool_inv (clean_expired p t)"
proof -
  assume inv: "pool_inv p"
  let ?wk = "map fst (filter (\<lambda>kv. t > expires_at (snd kv)) (weather_cache p))"
  let ?s1 = "foldl del_weather_key p ?wk"
  let ?ck = "map fst (filter (\<lambda>kv. t > expires_at (snd kv)) (city_cache ?s1))"
  from inv have "list_all (\<lambda>k. startswith k ''weather_'') ?wk"
    by (intro list_all_filter_keys) (simp add: pool_inv_def)
  with inv have s1: "pool_inv ?s1" by (rule pool_inv_foldl_del_weather)
  then have "list_all (\<lambda>k. startswith k ''city_'') ?ck"
    by (intro list_all_filter_keys) (simp add: pool_inv_def)
  with s1 have "pool_inv (foldl del_city_key ?s1 ?ck)" by (rule pool_inv_foldl_del_city)
  then show ?thesis by (simp add: clean_expired_def Let_def)
qed

lemma reachable_inv: "reachable p \<Longrightarrow> pool_inv p"
  by (induction rule: reachable.induct)
     (simp_all add: pool_inv_init pool_inv_set_weather pool_inv_get_weather pool_inv_set_city
        pool_inv_get_city pool_inv_evict_lru pool_inv_clear pool_inv_clean)

text \<open>
  Claim C10. In every state the pool can reach (from the constructor, by any sequence of
  \<^verbatim>\<open>set_weather_data\<close>, \<^verbatim>\<open>get_weather_data\<close>, \<^verbatim>\<open>set_city_info\<close>, \<^verbatim>\<open>get_city_info\<close>,
  \<^verbatim>\<open>_evict_lru\<close>, \<^verbatim>\<open>clear_cache\<close> and \<^verbatim>\<open>clean_expired\<close>, with any arguments and clock
  readings) the keys of the access index are exactly the keys of the weather store together
  with the keys of the city store: no entry without an index record, no index record
  without an entry.
\<close>

theorem access_index_matches_stores:
  "reachable p \<Longrightarrow>
   set (dict_keys (access_order p)) =
     set (dict_keys (weather_cache p)) \<union> set (dict_keys (city_cache p))"
  using reachable_inv [of p] by (simp add: pool_inv_def)

theorem access_index_matches_stores_witness:
  "reachable (set_city_info (init_pool default_config) (time_at 10 30 0) ''Guangzhou'' (7::nat)) \<and>
   set (dict_keys (access_order (set_city_info (init_pool default_config) (time_at 10 30 0) ''Guangzhou'' (7::nat)))) =
   set (dict_keys (weather_cache (set_city_info (init_pool default_config) (time_at 10 30 0) ''Guangzhou'' (7::nat)))) \<union>
   set (dict_keys (city_cache (set_city_info (init_pool default_config) (time_at 10 30 0) ''Guangzhou'' (7::nat))))"
proof -
  have r: "reachable (set_city_info (init_pool default_config) (time_at 10 30 0) ''Guangzhou'' (7::nat))"
    by (intro reachable.intros)
  from access_index_matches_stores [OF r] r show ?thesis by simp
qed

lemma dict_pop_absent: "k \<notin> set (dict_keys d) \<Longrightarrow> dict_pop d k = d"
  by (induction d) (auto simp: dict_pop_def dict_keys_def)

lemma evict_key_inv_form:
  assumes "pool_inv p"
  shows "evict_key p k =
           p\<lparr>weather_cache := dict_pop (weather_cache p) k,
             city_cache := dict_pop (city_cache p) k,
             access_order := dict_pop (access_order p) k,
             evictions := evictions p + 1\<rparr>"
proof -
  have w: "\<not> startswith k ''weather_'' \<Longrightarrow> dict_pop (weather_cache p) k = weather_cache p"
    using assms by (intro dict_pop_absent) (auto simp: pool_inv_def list_all_iff)
  have c: "\<not> startswith k ''city_'' \<Longrightarrow> dict_pop (city_cache p) k = city_cache p"
    using assms by (intro dict_pop_absent) (auto simp: pool_inv_def list_all_iff)
  have wc: "startswith k ''weather_'' \<Longrightarrow> \<not> startswith k ''city_''"
    using not_weather_and_city by blast
  show ?thesis
    by (cases "startswith k ''weather_''"; cases "startswith k ''city_''")
       (simp_all add: evict_key_def Let_def w c wc)
qed

lemma dict_pop_filter:
  "dict_pop (filter (\<lambda>kv. fst kv \<notin> set ks) d) k = filter (\<lambda>kv. fst kv \<notin> set (ks @ [k])) d"
  by (induction d) (auto simp: dict_pop_def)

lemma foldl_evict_key_form:
  assumes "pool_inv p"
  shows "foldl evict_key p ks =
           p\<lparr>weather_cache := filter (\<lambda>kv. fst kv \<notin> set ks) (weather_cache p),
             city_cache := filter (\<lambda>kv. fst kv \<notin> set ks) (city_cache p),
             access_order := filter (\<lambda>kv. fst kv \<notin> set ks) (access_order p),
             evictions := evictions p + length ks\<rparr>"
proof (induction ks rule: rev_induct)
  case Nil
  show ?case by simp
next
  case (snoc k ks)
  have inv: "pool_inv (foldl evict_key p ks)"
    using assms by (rule pool_inv_foldl_evict)
  show ?case
    by (simp only: foldl_append foldl.simps evict_key_inv_form [OF inv])
       (simp add: snoc dict_pop_filter)
qed

lemma pool_inv_length:
  assumes "pool_inv p"
  shows "length (access_order p) = length (weather_cache p) + length (city_cache p)"
proof -
  let ?w = "dict_keys (weather_cache p)" and ?c = "dict_keys (city_cache p)"
  let ?a = "dict_keys (access_order p)"
  have disj: "set ?w \<inter> set ?c = {}"
    using assms not_weather_and_city by (auto simp: pool_inv_def list_all_iff)
  have da: "distinct ?a" and dw: "distinct ?w" and dc: "distinct ?c"
    and eq: "set ?a = set ?w \<union> set ?c"
    using assms by (simp_all add: pool_inv_def)
  have "length ?a = card (set ?a)"
    using da by (rule distinct_card [symmetric])
  also have "\<dots> = card (set ?w \<union> set ?c)"
    by (simp only: eq)
  also have "\<dots> = card (set ?w) + card (set ?c)"
    using disj by (simp add: card_Un_disjoint)
  also have "\<dots> = length ?w + length ?c"
    by (simp only: distinct_card [OF dw] distinct_card [OF dc])
  finally show ?thesis by (simp add: dict_keys_def)
qed

lemma length_filter_keys_in:
  assumes "distinct (dict_keys d)" and "distinct ks" and "set ks \<subseteq> set (dict_keys d)"
  shows "length (filter (\<lambda>kv. fst kv \<in> set ks) d) = length ks"
proof -
  let ?f = "filter (\<lambda>k. k \<in> set ks) (dict_keys d)"
  have m: "map fst (filter (\<lambda>kv. fst kv \<in> set ks) d) = ?f"
    by (simp add: dict_keys_def filter_map comp_def)
  have d: "distinct ?f" using assms(1) by simp
  have s: "set ?f = set ks" using assms(3) by auto
  have "length (filter (\<lambda>kv. fst kv \<in> set ks) d) = length ?f"
    by (simp only: m [symmetric] length_map)
  also have "\<dots> = card (set ?f)" using d by (rule distinct_card [symmetric])
  also have "\<dots> = card (set ks)" by (simp only: s)
  also have "\<dots> = length ks" using assms(2) by (rule distinct_card)
  finally show ?thesis .
qed

lemma length_filter_keys_notin:
  assumes "distinct (dict_keys d)" and "distinct ks" and "set ks \<subseteq> set (dict_keys d)"
  shows "length (filter (\<lambda>kv. fst kv \<notin> set ks) d) + length ks = length d"
  using sum_length_filter_compl [of "\<lambda>kv. fst kv \<in> set ks" d]
    length_filter_keys_in [OF assms]
  by simp

lemma distinct_keys_sort_key:
  "distinct (map fst xs) \<Longrightarrow> distinct (map fst (sort_key f xs))"
  by (simp add: distinct_map)

lemma evict_lru_at_capacity:
  assumes inv: "pool_inv p" and full: "max_cache_size p \<le> total_entries p"
  shows "\<exists>removed kept.
         sort_key snd (access_order p) = removed @ kept \<and>
         int (length removed) = min (total_entries p) (total_entries p - max_cache_size p + 1) \<and>
         (\<forall>r\<in>set removed. \<forall>k\<in>set kept. snd r \<le> snd k) \<and>
         weather_cache (evict_lru p) = filter (\<lambda>kv. fst kv \<notin> fst ` set removed) (weather_cache p) \<and>
         city_cache (evict_lru p) = filter (\<lambda>kv. fst kv \<notin> fst ` set removed) (city_cache p) \<and>
         access_order (evict_lru p) = filter (\<lambda>kv. fst kv \<notin> fst ` set removed) (access_order p) \<and>
         evictions (evict_lru p) = evictions p + length removed \<and>
         total_entries (evict_lru p) = total_entries p - int (length removed)"
proof -
  define n where "n = nat (total_entries p - max_cache_size p + 1)"
  define sorted_access where "sorted_access = sort_key snd (access_order p)"
  define removed where "removed = take n sorted_access"
  define kept where "kept = drop n sorted_access"
  have len: "int (length (access_order p)) = total_entries p"
    using pool_inv_length [OF inv] by (simp add: total_entries_def)
  have ev: "evict_lru p = foldl evict_key p (map fst removed)"
    using full
    by (simp add: evict_lru_def Let_def slice_to_def total_entries_def removed_def n_def
        sorted_access_def)
  have split: "sort_key snd (access_order p) = removed @ kept"
    by (simp add: removed_def kept_def sorted_access_def)
  have "length removed = min (length (access_order p)) n"
    by (simp add: removed_def sorted_access_def)
  then have "int (length removed) = min (int (length (access_order p))) (int n)"
    by simp
  then have lenr: "int (length removed) = min (total_entries p) (total_entries p - max_cache_size p + 1)"
    using full unfolding len by (simp add: n_def)
  have "sorted (map snd (removed @ kept))"
    unfolding split [symmetric] by (rule sorted_sort_key)
  then have older: "\<forall>r\<in>set removed. \<forall>k\<in>set kept. snd r \<le> snd k"
    by (auto simp: sorted_append)
  have img: "set (map fst removed) = fst ` set removed" by simp
  note form = foldl_evict_key_form [OF inv, of "map fst removed", unfolded img]
  have dk: "distinct (map fst sorted_access)"
    unfolding sorted_access_def
    using inv by (intro distinct_keys_sort_key) (simp add: pool_inv_def dict_keys_def)
  have dr: "distinct (map fst removed)"
    using dk by (simp add: removed_def take_map [symmetric])
  have "set removed \<subseteq> set sorted_access"
    unfolding removed_def by (rule set_take_subset)
  then have sub: "set (map fst removed) \<subseteq> set (dict_keys (access_order p))"
    by (auto simp: sorted_access_def dict_keys_def)
  have da: "distinct (dict_keys (access_order p))"
    using inv by (simp add: pool_inv_def)
  have la: "length (access_order (evict_lru p)) + length removed = length (access_order p)"
    using length_filter_keys_notin [OF da dr sub] by (simp add: ev form)
  have inv': "pool_inv (evict_lru p)"
    using inv by (rule pool_inv_evict_lru)
  have tot: "total_entries (evict_lru p) = total_entries p - int (length removed)"
    using la pool_inv_length [OF inv'] pool_inv_length [OF inv]
    by (simp add: total_entries_def)
  show ?thesis
    apply (rule exI [of _ removed], rule exI [of _ kept])
    using split lenr older tot by (simp add: ev form)
qed

text \<open>A consequence used below: whatever the pool held, after a run of the eviction it
  holds fewer entries than \<^verbatim>\<open>max_cache_size\<close>.\<close>

lemma evict_lru_below_capacity:
  assumes inv: "pool_inv p" and cap: "1 \<le> max_cache_size p"
  shows "total_entries (evict_lru p) < max_cache_size (evict_lru p)"
proof -
  have m: "max_cache_size (evict_lru p) = max_cache_size p"
    by (simp add: evict_lru_def Let_def foldl_evict_key_form [OF inv])
  show ?thesis
  proof (cases "total_entries p < max_cache_size p")
    case True
    then have "evict_lru p = p" by (simp add: evict_lru_def total_entries_def Let_def)
    with True show ?thesis by simp
  next
    case False
    then have full: "max_cache_size p \<le> total_entries p" by simp
    from evict_lru_at_capacity [OF inv full] cap show ?thesis
      unfolding m by auto
  qed
qed

text \<open>
  Claim C4, as the code has it. Both \<^verbatim>\<open>set_weather_data\<close> and \<^verbatim>\<open>set_city_info\<close> end
  with a run of \<^verbatim>\<open>_evict_lru\<close> on the pool they have just written, and that pool
  satisfies the representation invariant when the pool before the call did (as every pool
  built by the constructor and the methods does). On a pool that satisfies the invariant:
  below capacity the eviction changes nothing; at or above capacity the access index, sorted
  by ascending last-access timestamp, splits into \<open>removed @ kept\<close>, where \<open>removed\<close> has
  \<open>min count (count - capacity + 1)\<close> records, none of them younger than a kept one; that is
  \<open>count - capacity + 1\<close> records for a capacity of at least one and all \<open>count\<close> records
  for a capacity below one (the slice \<^verbatim>\<open>sorted_access[:count - capacity + 1]\<close> then reaches
  past the end of the list). Exactly the keys of \<open>removed\<close> leave the weather store, the
  city store and the access index, the eviction counter grows by one per removed record,
  and the entry count drops by their number.
\<close>

theorem evict_lru_removes_oldest:
  assumes inv: "pool_inv p"
  shows
   "(total_entries p < max_cache_size p \<longrightarrow> evict_lru p = p) \<and>
    (max_cache_size p \<le> total_entries p \<longrightarrow>
      (\<exists>removed kept.
         sort_key snd (access_order p) = removed @ kept \<and>
         int (length removed) = min (total_entries p) (total_entries p - max_cache_size p + 1) \<and>
         (1 \<le> max_cache_size p \<longrightarrow>
            int (length removed) = total_entries p - max_cache_size p + 1) \<and>
         (max_cache_size p < 1 \<longrightarrow> int (length removed) = total_entries p) \<and>
         (\<forall>r\<in>set removed. \<forall>k\<in>set kept. snd r \<le> snd k) \<and>
         weather_cache (evict_lru p) = filter (\<lambda>kv. fst kv \<notin> fst ` set removed) (weather_cache p) \<and>
         city_cache (evict_lru p) = filter (\<lambda>kv. fst kv \<notin> fst ` set removed) (city_cache p) \<and>
         access_order (evict_lru p) = filter (\<lambda>kv. fst kv \<notin> fst ` set removed) (access_order p) \<and>
         evictions (evict_lru p) = evictions p + length removed \<and>
         total_entries (evict_lru p) = total_entries p - int (length removed))) \<and>
    set_weather_data p now t loc v =
      evict_lru (p\<lparr>weather_cache := dict_setitem (weather_cache p) (generate_weather_key now loc True)
                       \<lparr>data = v, created_at = t, expires_at = t + weather_cache_ttl p, location = loc\<rparr>,
                   access_order := dict_setitem (access_order p) (generate_weather_key now loc True) t\<rparr>) \<and>
    pool_inv (p\<lparr>weather_cache := dict_setitem (weather_cache p) (generate_weather_key now loc True)
                       \<lparr>data = v, created_at = t, expires_at = t + weather_cache_ttl p, location = loc\<rparr>,
                 access_order := dict_setitem (access_order p) (generate_weather_key now loc True) t\<rparr>) \<and>
    set_city_info p t loc v =
      evict_lru (p\<lparr>city_cache := dict_setitem (city_cache p) (generate_city_key loc)
                       \<lparr>data = v, created_at = t, expires_at = t + city_cache_ttl p, location = loc\<rparr>,
                   access_order := dict_setitem (access_order p) (generate_city_key loc) t\<rparr>) \<and>
    pool_inv (p\<lparr>city_cache := dict_setitem (city_cache p) (generate_city_key loc)
                       \<lparr>data = v, created_at = t, expires_at = t + city_cache_ttl p, location = loc\<rparr>,
                 access_order := dict_setitem (access_order p) (generate_city_key loc) t\<rparr>)"
proof (intro conjI impI)
  assume "total_entries p < max_cache_size p"
  then show "evict_lru p = p"
    by (simp add: evict_lru_def total_entries_def Let_def)
next
  assume full: "max_cache_size p \<le> total_entries p"
  from evict_lru_at_capacity [OF inv full] obtain removed kept where
    r: "sort_key snd (access_order p) = removed @ kept"
       "int (length removed) = min (total_entries p) (total_entries p - max_cache_size p + 1)"
       "\<forall>r\<in>set removed. \<forall>k\<in>set kept. snd r \<le> snd k"
       "weather_cache (evict_lru p) = filter (\<lambda>kv. fst kv \<notin> fst ` set removed) (weather_cache p)"
       "city_cache (evict_lru p) = filter (\<lambda>kv. fst kv \<notin> fst ` set removed) (city_cache p)"
       "access_order (evict_lru p) = filter (\<lambda>kv. fst kv \<notin> fst ` set removed) (access_order p)"
       "evictions (evict_lru p) = evictions p + length removed"
       "total_entries (evict_lru p) = total_entries p - int (length removed)"
    by blast
  have c1: "1 \<le> max_cache_size p \<longrightarrow> int (length removed) = total_entries p - max_cache_size p + 1"
    using r(2) by simp
  have c0: "max_cache_size p < 1 \<longrightarrow> int (length removed) = total_entries p"
    using r(2) by simp
  show "\<exists>removed kept.
         sort_key snd (access_order p) = removed @ kept \<and>
         int (length removed) = min (total_entries p) (total_entries p - max_cache_size p + 1) \<and>
         (1 \<le> max_cache_size p \<longrightarrow>
            int (length removed) = total_entries p - max_cache_size p + 1) \<and>
         (max_cache_size p < 1 \<longrightarrow> int (length removed) = total_entries p) \<and>
         (\<forall>r\<in>set removed. \<forall>k\<in>set kept. snd r \<le> snd k) \<and>
         weather_cache (evict_lru p) = filter (\<lambda>kv. fst kv \<notin> fst ` set removed) (weather_cache p) \<and>
         city_cache (evict_lru p) = filter (\<lambda>kv. fst kv \<notin> fst ` set removed) (city_cache p) \<and>
         access_order (evict_lru p) = filter (\<lambda>kv. fst kv \<notin> fst ` set removed) (access_order p) \<and>
         evictions (evict_lru p) = evictions p + length removed \<and>
         total_entries (evict_lru p) = total_entries p - int (length removed)"
    apply (rule exI [of _ removed], rule exI [of _ kept])
    using r c1 c0 by (intro conjI)
next
  show "set_weather_data p now t loc v =
      evict_lru (p\<lparr>weather_cache := dict_setitem (weather_cache p) (generate_weather_key now loc True)
                       \<lparr>data = v, created_at = t, expires_at = t + weather_cache_ttl p, location = loc\<rparr>,
                   access_order := dict_setitem (access_order p) (generate_weather_key now loc True) t\<rparr>)"
    by (simp add: set_weather_data_def Let_def)
next
  show "pool_inv (p\<lparr>weather_cache := dict_setitem (weather_cache p) (generate_weather_key now loc True)
                       \<lparr>data = v, created_at = t, expires_at = t + weather_cache_ttl p, location = loc\<rparr>,
                 access_order := dict_setitem (access_order p) (generate_weather_key now loc True) t\<rparr>)"
    by (rule pool_inv_put_weather [OF inv weather_key_prefix])
next
  show "set_city_info p t loc v =
      evict_lru (p\<lparr>city_cache := dict_setitem (city_cache p) (generate_city_key loc)
                       \<lparr>data = v, created_at = t, expires_at = t + city_cache_ttl p, location = loc\<rparr>,
                   access_order := dict_setitem (access_order p) (generate_city_key loc) t\<rparr>)"
    by (simp add: set_city_info_def Let_def)
next
  show "pool_inv (p\<lparr>city_cache := dict_setitem (city_cache p) (generate_city_key loc)
                       \<lparr>data = v, created_at = t, expires_at = t + city_cache_ttl p, location = loc\<rparr>,
                 access_order := dict_setitem (access_order p) (generate_city_key loc) t\<rparr>)"
    by (rule pool_inv_put_city [OF inv city_key_prefix])
qed

theorem evict_lru_removes_oldest_witness:
  "pool_inv example_full_pool \<and>
   max_cache_size example_full_pool \<le> total_entries example_full_pool \<and>
   1 \<le> max_cache_size example_full_pool \<and>
   total_entries (evict_lru example_full_pool) = 1 \<and>
   evictions (evict_lru example_full_pool) = 1"
proof -
  have inv: "pool_inv example_full_pool"
    by (auto simp: pool_inv_def dict_keys_def example_full_pool_def example_entry_def example_config_def time_at_def eval_defs)
  have cap: "1 \<le> max_cache_size example_full_pool"
    by (simp add: example_full_pool_def example_entry_def example_config_def time_at_def eval_defs)
  have full: "max_cache_size example_full_pool \<le> total_entries example_full_pool"
    by (simp add: example_full_pool_def example_entry_def example_config_def time_at_def eval_defs)
  have m: "max_cache_size example_full_pool = 2" "total_entries example_full_pool = 2"
     "evictions example_full_pool = 0"
    by (simp_all add: example_full_pool_def example_entry_def example_config_def time_at_def eval_defs)
  from evict_lru_removes_oldest [OF inv, of "clock_at 10 30 0" "time_at 10 30 0" "''Beijing''" 0] full cap
  obtain removed :: "(string \<times> real) list" where
    "int (length removed) = total_entries example_full_pool - max_cache_size example_full_pool + 1"
    "evictions (evict_lru example_full_pool) = evictions example_full_pool + length removed"
    "total_entries (evict_lru example_full_pool) = total_entries example_full_pool - int (length removed)"
    by blast
  with inv cap full m show ?thesis by simp
qed

text \<open>
  Claim C4 as stated fails for a capacity below one, which the constructor accepts. With
  \<^verbatim>\<open>max_cache_size = 0\<close> the first \<^verbatim>\<open>set_weather_data\<close> writes one entry and runs the
  eviction on a pool of count 1, which is at or above the capacity 0; the eviction removes
  that one entry and counts one eviction, where \<open>count - capacity + 1\<close> is 2.
\<close>

theorem evict_lru_capacity_zero_counterexample:
  "max_cache_size example_zero_pool = 0 \<and>
   total_entries example_zero_pool = 1 \<and>
   total_entries example_zero_pool - max_cache_size example_zero_pool + 1 = 2 \<and>
   evictions (evict_lru example_zero_pool) = evictions example_zero_pool + 1 \<and>
   total_entries (evict_lru example_zero_pool) = 0 \<and>
   set_weather_data (init_pool zero_config) (clock_at 10 30 0) (time_at 10 30 0) ''Beijing'' (7::nat)
     = evict_lru example_zero_pool \<and>
   evictions (set_weather_data (init_pool zero_config) (clock_at 10 30 0) (time_at 10 30 0) ''Beijing'' (7::nat))
     = 1"
  by (simp add: example_zero_pool_def zero_config_def clock_at_def time_at_def eval_defs)

lemma evictions_foldl_evict_key: "evictions (foldl evict_key p ks) = evictions p + length ks"
  by (induction ks arbitrary: p) (simp_all add: evict_key_def Let_def)

lemma weather_get_evict_key:
  "dict_get (weather_cache (evict_key p k)) key = Some e \<Longrightarrow> dict_get (weather_cache p) key = Some e"
  by (auto simp: evict_key_def Let_def dict_get_pop split: if_splits)

lemma city_get_evict_key:
  "dict_get (city_cache (evict_key p k)) key = Some e \<Longrightarrow> dict_get (city_cache p) key = Some e"
  by (auto simp: evict_key_def Let_def dict_get_pop split: if_splits)

lemma weather_get_foldl_evict_key:
  "dict_get (weather_cache (foldl evict_key p ks)) key = Some e \<Longrightarrow> dict_get (weather_cache p) key = Some e"
  by (induction ks arbitrary: p) (auto dest: weather_get_evict_key)

lemma city_get_foldl_evict_key:
  "dict_get (city_cache (foldl evict_key p ks)) key = Some e \<Longrightarrow> dict_get (city_cache p) key = Some e"
  by (induction ks arbitrary: p) (auto dest: city_get_evict_key)

lemma weather_get_evict_lru:
  "dict_get (weather_cache (evict_lru p)) key = Some e \<Longrightarrow> dict_get (weather_cache p) key = Some e"
  by (auto simp: evict_lru_def Let_def split: if_splits dest: weather_get_foldl_evict_key)

lemma city_get_evict_lru:
  "dict_get (city_cache (evict_lru p)) key = Some e \<Longrightarrow> dict_get (city_cache p) key = Some e"
  by (auto simp: evict_lru_def Let_def split: if_splits dest: city_get_foldl_evict_key)

lemma evict_lru_no_eviction: "evictions (evict_lru p) = evictions p \<Longrightarrow> evict_lru p = p"
  by (auto simp: evict_lru_def Let_def evictions_foldl_evict_key split: if_splits)

lemma set_weather_entry:
  assumes "dict_get (weather_cache (set_weather_data p now t loc v)) (generate_weather_key now loc True) = Some e"
  shows "e = \<lparr>data = v, created_at = t, expires_at = t + weather_cache_ttl p, location = loc\<rparr>"
  using weather_get_evict_lru [OF assms [unfolded set_weather_data_def Let_def]]
  by (simp add: dict_get_setitem)

lemma set_city_entry:
  assumes "dict_get (city_cache (set_city_info p t loc v)) (generate_city_key loc) = Some e"
  shows "e = \<lparr>data = v, created_at = t, expires_at = t + city_cache_ttl p, location = loc\<rparr>"
  using city_get_evict_lru [OF assms [unfolded set_city_info_def Let_def]]
  by (simp add: dict_get_setitem)

lemma set_weather_no_eviction:
  assumes "evictions (set_weather_data p now t loc v) = evictions p"
  shows "dict_get (weather_cache (set_weather_data p now t loc v)) (generate_weather_key now loc True)
         = Some \<lparr>data = v, created_at = t, expires_at = t + weather_cache_ttl p, location = loc\<rparr>"
proof -
  let ?q = "p\<lparr>weather_cache := dict_setitem (weather_cache p) (generate_weather_key now loc True)
                       \<lparr>data = v, created_at = t, expires_at = t + weather_cache_ttl p, location = loc\<rparr>,
                   access_order := dict_setitem (access_order p) (generate_weather_key now loc True) t\<rparr>"
  have s: "set_weather_data p now t loc v = evict_lru ?q"
    by (simp add: set_weather_data_def Let_def)
  have "evictions (evict_lru ?q) = evictions ?q" using assms by (simp add: s)
  then have "evict_lru ?q = ?q" by (rule evict_lru_no_eviction)
  then show ?thesis by (simp add: s dict_get_setitem)
qed

lemma set_city_no_eviction:
  assumes "evictions (set_city_info p t loc v) = evictions p"
  shows "dict_get (city_cache (set_city_info p t loc v)) (generate_city_key loc)
         = Some \<lparr>data = v, created_at = t, expires_at = t + city_cache_ttl p, location = loc\<rparr>"
proof -
  let ?q = "p\<lparr>city_cache := dict_setitem (city_cache p) (generate_city_key loc)
                       \<lparr>data = v, created_at = t, expires_at = t + city_cache_ttl p, location = loc\<rparr>,
                   access_order := dict_setitem (access_order p) (generate_city_key loc) t\<rparr>"
  have s: "set_city_info p t loc v = evict_lru ?q"
    by (simp add: set_city_info_def Let_def)
  have "evictions (evict_lru ?q) = evictions ?q" using assms by (simp add: s)
  then have "evict_lru ?q = ?q" by (rule evict_lru_no_eviction)
  then show ?thesis by (simp add: s dict_get_setitem)
qed

lemma get_weather_result:
  "snd (get_weather_data q now t_check t_access loc) =
     (case dict_get (weather_cache q) (generate_weather_key now loc True) of
        None \<Rightarrow> None
      | Some e \<Rightarrow> if t_check > expires_at e then None else Some (data e))"
  by (simp add: get_weather_data_def Let_def is_expired_def split: option.splits)

lemma get_city_result:
  "snd (get_city_info q t_check t_access loc) =
     (case dict_get (city_cache q) (generate_city_key loc) of
        None \<Rightarrow> None
      | Some e \<Rightarrow> if t_check > expires_at e then None else Some (data e))"
  by (simp add: get_city_info_def Let_def is_expired_def split: option.splits)

text \<open>
  Claim C2, as the code has it. \<^verbatim>\<open>_is_expired\<close> compares with \<open>>\<close>: a lookup returns
  \<^verbatim>\<open>None\<close> for an entry once the clock is strictly past \<open>expires_at\<close> (at
  \<open>now = expires_at\<close> the entry is still served). Directly after the
  \<^verbatim>\<open>set_weather_data\<close> / \<^verbatim>\<open>set_city_info\<close> that stored the value at time \<open>t\<close>, a lookup
  at any \<open>now \<le> t + ttl\<close> returns the stored value, provided that call evicted nothing
  (its eviction counter is unchanged) and, for weather, that the lookup computes the same
  key, that is, falls into the same calendar hour as the store; past \<open>t + ttl\<close> the lookup
  returns \<^verbatim>\<open>None\<close>.
\<close>

theorem get_after_put_ttl:
  "(dict_get (weather_cache q) (generate_weather_key now' loc True) = Some e \<longrightarrow> expires_at e < t_check \<longrightarrow>
      snd (get_weather_data q now' t_check t_access loc) = None) \<and>
   (dict_get (city_cache q) (generate_city_key loc) = Some e \<longrightarrow> expires_at e < t_check \<longrightarrow>
      snd (get_city_info q t_check t_access loc) = None) \<and>
   (generate_weather_key now' loc True = generate_weather_key now loc True \<longrightarrow>
      t + weather_cache_ttl p < t_check \<longrightarrow>
      snd (get_weather_data (set_weather_data p now t loc v) now' t_check t_access loc) = None) \<and>
   (t + city_cache_ttl p < t_check \<longrightarrow>
      snd (get_city_info (set_city_info p t loc v) t_check t_access loc) = None) \<and>
   (generate_weather_key now' loc True = generate_weather_key now loc True \<longrightarrow>
      evictions (set_weather_data p now t loc v) = evictions p \<longrightarrow>
      t_check \<le> t + weather_cache_ttl p \<longrightarrow>
      snd (get_weather_data (set_weather_data p now t loc v) now' t_check t_access loc) = Some v) \<and>
   (evictions (set_city_info p t loc v) = evictions p \<longrightarrow>
      t_check \<le> t + city_cache_ttl p \<longrightarrow>
      snd (get_city_info (set_city_info p t loc v) t_check t_access loc) = Some v)"
proof (intro conjI impI)
  assume "dict_get (weather_cache q) (generate_weather_key now' loc True) = Some e" "expires_at e < t_check"
  then show "snd (get_weather_data q now' t_check t_access loc) = None"
    by (simp add: get_weather_result)
next
  assume "dict_get (city_cache q) (generate_city_key loc) = Some e" "expires_at e < t_check"
  then show "snd (get_city_info q t_check t_access loc) = None"
    by (simp add: get_city_result)
next
  assume k: "generate_weather_key now' loc True = generate_weather_key now loc True"
    and late: "t + weather_cache_ttl p < t_check"
  show "snd (get_weather_data (set_weather_data p now t loc v) now' t_check t_access loc) = None"
  proof (cases "dict_get (weather_cache (set_weather_data p now t loc v)) (generate_weather_key now loc True)")
    case None
    then show ?thesis by (simp add: get_weather_result k)
  next
    case (Some e')
    from set_weather_entry [OF Some] Some late show ?thesis
      by (simp add: get_weather_result k)
  qed
next
  assume late: "t + city_cache_ttl p < t_check"
  show "snd (get_city_info (set_city_info p t loc v) t_check t_access loc) = None"
  proof (cases "dict_get (city_cache (set_city_info p t loc v)) (generate_city_key loc)")
    case None
    then show ?thesis by (simp add: get_city_result)
  next
    case (Some e')
    from set_city_entry [OF Some] Some late show ?thesis
      by (simp add: get_city_result)
  qed
next
  assume k: "generate_weather_key now' loc True = generate_weather_key now loc True"
    and ne: "evictions (set_weather_data p now t loc v) = evictions p"
    and fresh: "t_check \<le> t + weather_cache_ttl p"
  from set_weather_no_eviction [OF ne] fresh
  show "snd (get_weather_data (set_weather_data p now t loc v) now' t_check t_access loc) = Some v"
    by (simp add: get_weather_result k)
next
  assume ne: "evictions (set_city_info p t loc v) = evictions p"
    and fresh: "t_check \<le> t + city_cache_ttl p"
  from set_city_no_eviction [OF ne] fresh
  show "snd (get_city_info (set_city_info p t loc v) t_check t_access loc) = Some v"
    by (simp add: get_city_result)
qed

theorem get_after_put_ttl_witness:
  "generate_weather_key (clock_at 10 30 30) ''Beijing'' True
     = generate_weather_key (clock_at 10 30 0) ''Beijing'' True \<and>
   evictions (set_weather_data (init_pool example_config) (clock_at 10 30 0) (time_at 10 30 0) ''Beijing'' (7::nat))
     = evictions (init_pool example_config :: nat WeatherCachePool) \<and>
   time_at 10 30 30 \<le> time_at 10 30 0 + weather_cache_ttl (init_pool example_config :: nat WeatherCachePool) \<and>
   snd (get_weather_data
          (set_weather_data (init_pool example_config) (clock_at 10 30 0) (time_at 10 30 0) ''Beijing'' (7::nat))
          (clock_at 10 30 30) (time_at 10 30 30) (time_at 10 30 30) ''Beijing'') = Some 7"
proof -
  have k: "generate_weather_key (clock_at 10 30 30) ''Beijing'' True
     = generate_weather_key (clock_at 10 30 0) ''Beijing'' True"
    by (simp add: clock_at_def eval_defs)
  have ne: "evictions (set_weather_data (init_pool example_config) (clock_at 10 30 0) (time_at 10 30 0) ''Beijing'' (7::nat))
     = evictions (init_pool example_config :: nat WeatherCachePool)"
    by (simp add: example_config_def clock_at_def time_at_def eval_defs)
  have fresh: "time_at 10 30 30 \<le> time_at 10 30 0 + weather_cache_ttl (init_pool example_config :: nat WeatherCachePool)"
    by (simp add: example_config_def time_at_def eval_defs)
  from get_after_put_ttl [of "init_pool example_config :: nat WeatherCachePool" "clock_at 10 30 30"
      "''Beijing''" example_entry "time_at 10 30 30" "time_at 10 30 30" "clock_at 10 30 0"
      "time_at 10 30 0" "init_pool example_config :: nat WeatherCachePool" 7] k ne fresh
  show ?thesis by simp
qed

text \<open>
  Claim C2 as stated fails twice. With a weather TTL of 60 seconds, a value stored at
  10:30:00 expires at 10:31:00, and the lookup at 10:31:00 (where \<open>now \<ge> expires_at\<close>)
  still returns it. With the default TTL of 3600 seconds, a value stored at 10:30:00
  expires at 11:30:00 and is not found at 11:01:00 (where \<open>now < expires_at\<close>), because
  the key carries the hour.
\<close>

theorem get_at_expiry_counterexample:
  "snd (get_weather_data
          (set_weather_data (init_pool example_config) (clock_at 10 30 0) (time_at 10 30 0) ''Beijing'' (7::nat))
          (clock_at 10 31 0) (time_at 10 31 0) (time_at 10 31 0) ''Beijing'') = Some 7 \<and>
   map (expires_at \<circ> snd)
     (weather_cache (set_weather_data (init_pool example_config) (clock_at 10 30 0) (time_at 10 30 0) ''Beijing'' (7::nat)))
     = [time_at 10 31 0] \<and>
   snd (get_weather_data
          (set_weather_data (init_pool default_config) (clock_at 10 30 0) (time_at 10 30 0) ''Beijing'' (7::nat))
          (clock_at 11 1 0) (time_at 11 1 0) (time_at 11 1 0) ''Beijing'') = None \<and>
   map (expires_at \<circ> snd)
     (weather_cache (set_weather_data (init_pool default_config) (clock_at 10 30 0) (time_at 10 30 0) ''Beijing'' (7::nat)))
     = [time_at 11 30 0] \<and>
   time_at 11 1 0 < time_at 11 30 0"
  by (simp add: example_config_def default_config_def clock_at_def time_at_def eval_defs)

text \<open>
  Claim C3 on the code: capacity 2, three different locations stored at 10:30:01, 10:30:02
  and 10:30:03 with no lookup in between, then looked up at 10:30:04. The eviction runs
  after the insertion and removes \<open>count - capacity + 1\<close> entries as soon as \<open>count\<close>
  reaches the capacity, so the second store already evicts \<^verbatim>\<open>a\<close> and the third evicts
  \<^verbatim>\<open>b\<close>: of the three keys only the last one is found, while the claim has the two
  youngest found.
\<close>

theorem lru_capacity_two_three_puts:
  "snd (get_weather_data
         (set_weather_data (set_weather_data (set_weather_data (init_pool example_config)
            (clock_at 10 30 1) (time_at 10 30 1) ''a'' (10::nat))
            (clock_at 10 30 2) (time_at 10 30 2) ''b'' 20)
            (clock_at 10 30 3) (time_at 10 30 3) ''c'' 30)
         (clock_at 10 30 4) (time_at 10 30 4) (time_at 10 30 4) ''a'') = None \<and>
   snd (get_weather_data
         (set_weather_data (set_weather_data (set_weather_data (init_pool example_config)
            (clock_at 10 30 1) (time_at 10 30 1) ''a'' (10::nat))
            (clock_at 10 30 2) (time_at 10 30 2) ''b'' 20)
            (clock_at 10 30 3) (time_at 10 30 3) ''c'' 30)
         (clock_at 10 30 4) (time_at 10 30 4) (time_at 10 30 4) ''b'') = None \<and>
   snd (get_weather_data
         (set_weather_data (set_weather_data (set_weather_data (init_pool example_config)
            (clock_at 10 30 1) (time_at 10 30 1) ''a'' (10::nat))
            (clock_at 10 30 2) (time_at 10 30 2) ''b'' 20)
            (clock_at 10 30 3) (time_at 10 30 3) ''c'' 30)
         (clock_at 10 30 4) (time_at 10 30 4) (time_at 10 30 4) ''c'') = Some 30 \<and>
   max_cache_size (init_pool example_config :: nat WeatherCachePool) = 2"
  by (simp add: example_config_def clock_at_def time_at_def eval_defs)

section \<open>Proofs about the float arithmetic\<close>

subsection \<open>Powers of two and the exponent\<close>

lemma pow2_less_imp_less: "(2::real) powi a < 2 powi b \<Longrightarrow> a < b"
proof (rule ccontr)
  assume l: "(2::real) powi a < 2 powi b" and "\<not> a < b"
  then have "b \<le> a" by simp
  then have "(2::real) powi b \<le> 2 powi a" by (rule power_int_increasing) simp_all
  with l show False by simp
qed

lemma pow2_le_imp_le: "(2::real) powi a \<le> 2 powi b \<Longrightarrow> a \<le> b"
proof (rule ccontr)
  assume l: "(2::real) powi a \<le> 2 powi b" and "\<not> a \<le> b"
  then have "b < a" by simp
  then have "(2::real) powi b < 2 powi a" by (rule power_int_strict_increasing) simp
  with l show False by simp
qed

lemma pow2_le_mono: "a \<le> b \<Longrightarrow> (2::real) powi a \<le> 2 powi b"
  by (rule power_int_increasing) simp_all

lemma pow2_nat: "0 \<le> n \<Longrightarrow> (2::real) powi n = 2 ^ nat n"
  by (simp add: power_int_def)

lemma pow2_neg: "0 \<le> n \<Longrightarrow> (2::real) powi (- n) = 1 / 2 ^ nat n"
  by (simp add: power_int_def field_simps)

lemma bitlen_pos: "0 < n \<Longrightarrow> 1 \<le> bitlen n"
  using bitlen_eq_zero_iff [of n] bitlen_nonneg [of n] by linarith

lemma floor_log2_ge1:
  assumes "1 \<le> x"
  shows "2 powi floor_log2 x \<le> x \<and> x < 2 powi (floor_log2 x + 1)"
proof -
  define n where "n = \<lfloor>x\<rfloor>"
  define b where "b = bitlen n"
  have n: "0 < n" using assms by (simp add: n_def)
  from bitlen_bounds [OF n] have lo: "2 ^ nat (b - 1) \<le> n" and hi: "n < 2 ^ nat b"
    by (simp_all add: b_def)
  have b1: "1 \<le> b" unfolding b_def using n by (rule bitlen_pos)
  have f: "floor_log2 x = b - 1" using assms by (simp add: floor_log2_def n_def b_def)
  have "real_of_int (2 ^ nat (b - 1)) \<le> real_of_int n" using lo by (simp only: of_int_le_iff)
  also have "\<dots> \<le> x" by (simp add: n_def)
  finally have 1: "2 powi (b - 1) \<le> x" using b1 by (simp add: pow2_nat)
  have "n + 1 \<le> 2 ^ nat b" using hi by simp
  then have "real_of_int (n + 1) \<le> real_of_int (2 ^ nat b)" by (simp only: of_int_le_iff)
  moreover have "x < real_of_int (n + 1)" by (simp add: n_def)
  ultimately have 2: "x < 2 powi b" using b1 by (simp add: pow2_nat)
  from 1 2 show ?thesis by (simp add: f)
qed

lemma floor_log2_lt1:
  assumes "0 < x" and "x < 1"
  shows "2 powi floor_log2 x \<le> x \<and> x < 2 powi (floor_log2 x + 1)"
proof -
  define y where "y = 1 / x"
  define k where "k = \<lceil>y\<rceil> - 1"
  define b where "b = bitlen k"
  have y1: "1 < y" using assms by (simp add: y_def)
  have x: "x = 1 / y" by (simp add: y_def)
  have k: "0 < k" using y1 by (simp add: k_def less_ceiling_iff)
  from bitlen_bounds [OF k] have lo: "2 ^ nat (b - 1) \<le> k" and hi: "k < 2 ^ nat b"
    by (simp_all add: b_def)
  have b1: "1 \<le> b" unfolding b_def using k by (rule bitlen_pos)
  have f: "floor_log2 x = - b" using assms by (simp add: floor_log2_def y_def k_def b_def)
  have "k + 1 \<le> 2 ^ nat b" using hi by simp
  then have "real_of_int (k + 1) \<le> real_of_int (2 ^ nat b)" by (simp only: of_int_le_iff)
  moreover have "y \<le> real_of_int (k + 1)" by (simp add: k_def)
  ultimately have yb: "y \<le> 2 ^ nat b" by simp
  have "1 / 2 ^ nat b \<le> 1 / y" using yb y1 by (intro divide_left_mono) simp_all
  then have 1: "2 powi (- b) \<le> x" using b1 by (simp add: pow2_neg x)
  have "real_of_int (2 ^ nat (b - 1)) \<le> real_of_int k" using lo by (simp only: of_int_le_iff)
  then have "(2::real) ^ nat (b - 1) \<le> real_of_int k" by simp
  moreover have "real_of_int k < y" using ceiling_correct [of y] by (simp add: k_def)
  ultimately have yl: "2 ^ nat (b - 1) < y" by linarith
  have "1 / y < 1 / 2 ^ nat (b - 1)" using yl y1 by (intro divide_strict_left_mono) simp_all
  moreover have "(2::real) powi (- b + 1) = 1 / 2 ^ nat (b - 1)"
    using pow2_neg [of "b - 1"] b1 by simp
  ultimately have 2: "x < 2 powi (- b + 1)" by (simp add: x)
  from 1 2 show ?thesis by (simp add: f)
qed

lemma floor_log2_bounds:
  assumes "0 < x"
  shows "2 powi floor_log2 x \<le> x" and "x < 2 powi (floor_log2 x + 1)"
  using floor_log2_ge1 [of x] floor_log2_lt1 [of x] assms by (cases "1 \<le> x"; simp)+

lemma floor_log2_unique:
  assumes "0 < x" and lo: "2 powi e \<le> x" and hi: "x < 2 powi (e + 1)"
  shows "floor_log2 x = e"
proof -
  from floor_log2_bounds [OF assms(1)] lo hi
  have a: "(2::real) powi floor_log2 x < 2 powi (e + 1)"
    and b: "(2::real) powi e < 2 powi (floor_log2 x + 1)"
    by linarith+
  from a have "floor_log2 x < e + 1" by (rule pow2_less_imp_less)
  moreover from b have "e < floor_log2 x + 1" by (rule pow2_less_imp_less)
  ultimately show ?thesis by simp
qed

lemma floor_log2_mono:
  assumes "0 < x" and "x \<le> y"
  shows "floor_log2 x \<le> floor_log2 y"
proof -
  have y: "0 < y" using assms by simp
  from floor_log2_bounds(1) [OF assms(1)] floor_log2_bounds(2) [OF y] assms(2)
  have "(2::real) powi floor_log2 x < 2 powi (floor_log2 y + 1)" by linarith
  then have "floor_log2 x < floor_log2 y + 1" by (rule pow2_less_imp_less)
  then show ?thesis by simp
qed

subsection \<open>Rounding\<close>

text \<open>Rounding to the nearest integer is monotone and leaves an integer unchanged.\<close>

lemma round_half_even_of_int [simp]: "round_half_even (of_int n) = n"
  by (simp add: round_half_even_def)

lemma round_half_even_range:
  "round_half_even y = \<lfloor>y\<rfloor> \<or> round_half_even y = \<lfloor>y\<rfloor> + 1"
  by (simp add: round_half_even_def Let_def)

lemma round_half_even_mono:
  assumes "a \<le> b"
  shows "round_half_even a \<le> round_half_even b"
proof (cases "\<lfloor>a\<rfloor> = \<lfloor>b\<rfloor>")
  case True
  with assms show ?thesis
    by (auto simp: round_half_even_def Let_def)
next
  case False
  with assms have "\<lfloor>a\<rfloor> < \<lfloor>b\<rfloor>" using floor_mono [of a b] by simp
  with round_half_even_range [of a] round_half_even_range [of b] show ?thesis by linarith
qed

lemma round_half_even_le: "y \<le> of_int n \<Longrightarrow> round_half_even y \<le> n"
  using round_half_even_mono [of y "of_int n"] by simp

lemma round_half_even_ge: "of_int n \<le> y \<Longrightarrow> n \<le> round_half_even y"
  using round_half_even_mono [of "of_int n" y] by simp

lemma pow2_ratio: "(2::real) powi a / 2 powi b = 2 powi (a - b)"
  by (simp add: power_int_diff)

lemma pow2_mult: "(2::real) powi a * 2 powi b = 2 powi (a + b)"
  by (simp add: power_int_add)

lemma binade_minus [simp]: "binade (- x) = binade x"
  by (simp add: binade_def)

lemma binade_ge: "- 1022 \<le> binade x"
  by (simp add: binade_def)

lemma binade_mono: "0 < x \<Longrightarrow> x \<le> y \<Longrightarrow> binade x \<le> binade y"
  using floor_log2_mono [of x y] by (simp add: binade_def)

lemma binade_upper: "0 < x \<Longrightarrow> x < 2 powi (binade x + 1)"
proof -
  assume x: "0 < x"
  have "floor_log2 x + 1 \<le> binade x + 1" using x by (simp add: binade_def)
  then have "(2::real) powi (floor_log2 x + 1) \<le> 2 powi (binade x + 1)" by (rule pow2_le_mono)
  with floor_log2_bounds(2) [OF x] show ?thesis by linarith
qed

lemma binade_lower: "0 < x \<Longrightarrow> - 1022 < binade x \<Longrightarrow> 2 powi binade x \<le> x"
proof -
  assume x: "0 < x" and "- 1022 < binade x"
  then have "binade x = floor_log2 x" by (simp add: binade_def max_def split: if_splits)
  with floor_log2_bounds(1) [OF x] show ?thesis by simp
qed

lemma binade_eqI:
  assumes "0 < x" and "- 1022 \<le> e" and "2 powi e \<le> x" and "x < 2 powi (e + 1)"
  shows "binade x = e"
  using floor_log2_unique [OF assms(1,3,4)] assms(1,2) by (simp add: binade_def)

lemma binade_subnormal:
  assumes "0 < x" and "x < 2 powi (- 1022)"
  shows "binade x = - 1022"
proof -
  from floor_log2_bounds(1) [OF assms(1)] assms(2)
  have "(2::real) powi floor_log2 x < 2 powi (- 1022)" by linarith
  then have "floor_log2 x < - 1022" by (rule pow2_less_imp_less)
  then show ?thesis using assms(1) by (simp add: binade_def)
qed

lemma round_nearest_zero [simp]: "round_nearest 0 = 0"
  by (simp add: round_nearest_def)

lemma round_nearest_minus: "round_nearest (- x) = - round_nearest x"
  by (simp add: round_nearest_def Let_def)

lemma round_nearest_pos:
  "0 < x \<Longrightarrow> round_nearest x
     = of_int (round_half_even (x / 2 powi (binade x - 52))) * 2 powi (binade x - 52)"
  by (simp add: round_nearest_def Let_def)

lemma round_nearest_upper:
  assumes "0 < x"
  shows "round_nearest x \<le> 2 powi (binade x + 1)"
proof -
  let ?u = "(2::real) powi (binade x - 52)"
  have u: "0 < ?u" by simp
  have "x / ?u \<le> 2 powi (binade x + 1) / ?u"
    using binade_upper [OF assms] u by (simp add: divide_right_mono)
  also have "\<dots> = 2 powi 53" by (simp add: pow2_ratio)
  also have "\<dots> = real_of_int (2 ^ 53)" by simp
  finally have "round_half_even (x / ?u) \<le> 2 ^ 53" by (rule round_half_even_le)
  then have "real_of_int (round_half_even (x / ?u)) \<le> real_of_int (2 ^ 53)"
    by (simp only: of_int_le_iff)
  then have "real_of_int (round_half_even (x / ?u)) * ?u \<le> real_of_int (2 ^ 53) * ?u"
    using u by (simp only: mult_le_cancel_right_pos)
  also have "real_of_int (2 ^ 53) * ?u = 2 powi 53 * ?u" by simp
  also have "\<dots> = 2 powi (53 + (binade x - 52))" by (simp only: pow2_mult)
  also have "53 + (binade x - 52) = binade x + 1" by simp
  finally show ?thesis by (simp only: round_nearest_pos [OF assms])
qed

lemma round_nearest_lower:
  assumes "0 < x" and "- 1022 < binade x"
  shows "2 powi binade x \<le> round_nearest x"
proof -
  let ?u = "(2::real) powi (binade x - 52)"
  have u: "0 < ?u" by simp
  have "real_of_int (2 ^ 52) = 2 powi 52" by simp
  also have "\<dots> = 2 powi binade x / ?u" by (simp add: pow2_ratio)
  also have "\<dots> \<le> x / ?u"
    using binade_lower [OF assms] u by (simp add: divide_right_mono)
  finally have "2 ^ 52 \<le> round_half_even (x / ?u)" by (rule round_half_even_ge)
  then have "real_of_int (2 ^ 52) \<le> real_of_int (round_half_even (x / ?u))"
    by (simp only: of_int_le_iff)
  then have "real_of_int (2 ^ 52) * ?u \<le> real_of_int (round_half_even (x / ?u)) * ?u"
    using u by (simp only: mult_le_cancel_right_pos)
  moreover have "real_of_int (2 ^ 52) * ?u = 2 powi 52 * ?u" by simp
  moreover have "2 powi 52 * ?u = 2 powi (52 + (binade x - 52))" by (simp only: pow2_mult)
  moreover have "52 + (binade x - 52) = binade x" by simp
  ultimately show ?thesis by (simp only: round_nearest_pos [OF assms(1)])
qed

lemma round_nearest_nonneg:
  assumes "0 \<le> x"
  shows "0 \<le> round_nearest x"
proof (cases "x = 0")
  case True
  then show ?thesis by simp
next
  case False
  with assms have x: "0 < x" by simp
  have "0 \<le> x / 2 powi (binade x - 52)" using x by simp
  then have "0 \<le> round_half_even (x / 2 powi (binade x - 52))"
    using round_half_even_ge [of 0] by simp
  then show ?thesis by (simp add: round_nearest_pos [OF x])
qed

lemma round_nearest_mono_pos:
  assumes x: "0 < x" and le: "x \<le> y"
  shows "round_nearest x \<le> round_nearest y"
proof -
  have y: "0 < y" using x le by simp
  have e: "binade x \<le> binade y" using x le by (rule binade_mono)
  show ?thesis
  proof (cases "binade x = binade y")
    case True
    let ?u = "(2::real) powi (binade y - 52)"
    have u: "0 < ?u" by simp
    have "x / ?u \<le> y / ?u" using le u by (simp add: divide_right_mono)
    then have "round_half_even (x / ?u) \<le> round_half_even (y / ?u)"
      by (rule round_half_even_mono)
    then have "real_of_int (round_half_even (x / ?u)) \<le> real_of_int (round_half_even (y / ?u))"
      by (simp only: of_int_le_iff)
    then have "real_of_int (round_half_even (x / ?u)) * ?u \<le> real_of_int (round_half_even (y / ?u)) * ?u"
      using u by (simp only: mult_le_cancel_right_pos)
    then show ?thesis by (simp only: round_nearest_pos [OF x] round_nearest_pos [OF y] True)
  next
    case False
    with e have lt: "binade x + 1 \<le> binade y" by simp
    with binade_ge [of x] have "- 1022 < binade y" by linarith
    from round_nearest_lower [OF y this] round_nearest_upper [OF x] pow2_le_mono [OF lt]
    show ?thesis by linarith
  qed
qed

lemma round_nearest_mono:
  assumes "x \<le> y"
  shows "round_nearest x \<le> round_nearest y"
proof -
  consider "0 < x" | "x \<le> 0" "0 \<le> y" | "y < 0" by linarith
  then show ?thesis
  proof cases
    case 1
    then show ?thesis using assms by (rule round_nearest_mono_pos)
  next
    case 2
    have "0 \<le> round_nearest (- x)" using 2(1) by (intro round_nearest_nonneg) simp
    then have "round_nearest x \<le> 0" by (simp add: round_nearest_minus)
    also have "0 \<le> round_nearest y" using 2(2) by (rule round_nearest_nonneg)
    finally show ?thesis .
  next
    case 3
    have "round_nearest (- y) \<le> round_nearest (- x)"
      using 3 assms by (intro round_nearest_mono_pos) simp_all
    then show ?thesis by (simp add: round_nearest_minus)
  qed
qed

text \<open>An integer of at most 53 bits, scaled by a power of two that is not below the
  smallest subnormal, is a value of the format: rounding leaves it unchanged.\<close>

lemma round_nearest_exact_pos:
  assumes m: "0 < m" "m \<le> 2 ^ 53" and j: "- 1074 \<le> j"
  shows "round_nearest (of_int m * 2 powi j) = of_int m * 2 powi j"
proof -
  let ?x = "real_of_int m * 2 powi j"
  let ?e = "binade ?x"
  have x: "0 < ?x" using m(1) by simp
  have "\<exists>n. ?x / 2 powi (?e - 52) = real_of_int n"
  proof (cases "?e - 52 \<le> j")
    case True
    have "?x / 2 powi (?e - 52) = real_of_int m * (2 powi j / 2 powi (?e - 52))" by simp
    also have "\<dots> = real_of_int m * 2 powi (j - (?e - 52))" by (simp only: pow2_ratio)
    also have "\<dots> = real_of_int m * 2 ^ nat (j - (?e - 52))" using True by (simp add: pow2_nat)
    also have "\<dots> = real_of_int (m * 2 ^ nat (j - (?e - 52)))" by simp
    finally show ?thesis by blast
  next
    case False
    then have big: "j + 53 \<le> ?e" by simp
    with j have "- 1022 < ?e" by linarith
    from binade_lower [OF x this] have lo: "2 powi ?e \<le> ?x" .
    have p: "(2::real) powi (j + 53) = 2 ^ 53 * 2 powi j"
      using pow2_mult [of 53 j] by (simp add: add.commute)
    have "real_of_int m \<le> real_of_int (2 ^ 53)" using m(2) by (simp only: of_int_le_iff)
    then have m53: "real_of_int m \<le> 2 ^ 53" by simp
    then have "?x \<le> 2 ^ 53 * 2 powi j" by simp
    with lo p have "(2::real) powi ?e \<le> 2 powi (j + 53)" by linarith
    then have "?e \<le> j + 53" by (rule pow2_le_imp_le)
    with big have e: "?e = j + 53" by simp
    from lo have "2 ^ 53 * 2 powi j \<le> real_of_int m * 2 powi j" by (simp only: e p)
    then have "(2::real) ^ 53 \<le> real_of_int m" by simp
    with m53 have m_eq: "real_of_int m = 2 ^ 53" by simp
    have "?x / 2 powi (?e - 52) = ?x / 2 powi (j + 53 - 52)"
      by (simp only: e)
    also have "\<dots> = 2 powi (j + 53) / 2 powi (j + 53 - 52)"
      by (simp only: m_eq p)
    also have "\<dots> = 2 powi 52" by (simp only: pow2_ratio) simp
    also have "\<dots> = real_of_int (2 ^ 52)" by simp
    finally show ?thesis by blast
  qed
  then obtain n where n: "?x / 2 powi (?e - 52) = real_of_int n" ..
  have "round_nearest ?x = real_of_int n * 2 powi (?e - 52)"
    by (simp only: round_nearest_pos [OF x] n round_half_even_of_int)
  also have "\<dots> = ?x / 2 powi (?e - 52) * 2 powi (?e - 52)" by (simp only: n)
  also have "\<dots> = ?x" by simp
  finally show ?thesis .
qed

lemma round_nearest_exact:
  assumes "\<bar>m\<bar> \<le> 2 ^ 53" and "- 1074 \<le> j"
  shows "round_nearest (of_int m * 2 powi j) = of_int m * 2 powi j"
proof -
  consider "0 < m" | "m = 0" | "m < 0" by linarith
  then show ?thesis
  proof cases
    case 1
    then show ?thesis using assms by (intro round_nearest_exact_pos) simp_all
  next
    case 2
    then show ?thesis by simp
  next
    case 3
    then have "round_nearest (of_int (- m) * 2 powi j) = of_int (- m) * 2 powi j"
      using assms by (intro round_nearest_exact_pos) simp_all
    then show ?thesis using round_nearest_minus [of "of_int m * 2 powi j"] by simp
  qed
qed

lemma round_nearest_idem: "round_nearest (round_nearest x) = round_nearest x"
proof -
  have pos: "round_nearest (round_nearest y) = round_nearest y" if y: "0 < y" for y
  proof -
    let ?u = "(2::real) powi (binade y - 52)"
    let ?m = "round_half_even (y / ?u)"
    have r: "round_nearest y = of_int ?m * ?u" using y by (rule round_nearest_pos)
    have u0: "0 < ?u" by simp
    have "0 \<le> round_nearest y" using y by (intro round_nearest_nonneg) simp
    then have "0 \<le> real_of_int ?m * ?u" by (simp only: r)
    then have "0 \<le> real_of_int ?m" using u0 by (simp only: zero_le_mult_iff) linarith
    then have m0: "0 \<le> ?m" by simp
    have "real_of_int ?m * ?u \<le> 2 powi (binade y + 1)"
      using round_nearest_upper [OF y] by (simp only: r)
    also have "binade y + 1 = 53 + (binade y - 52)" by simp
    also have "(2::real) powi (53 + (binade y - 52)) = 2 powi 53 * ?u" by (simp only: pow2_mult)
    finally have "real_of_int ?m \<le> 2 powi 53" using u0 by (simp only: mult_le_cancel_right_pos)
    then have "real_of_int ?m \<le> real_of_int (2 ^ 53)" by simp
    then have m53: "?m \<le> 2 ^ 53" by (simp only: of_int_le_iff)
    have j: "- 1074 \<le> binade y - 52" using binade_ge [of y] by simp
    from m0 m53 have "\<bar>?m\<bar> \<le> 2 ^ 53" by simp
    from round_nearest_exact [OF this j] show ?thesis by (simp only: r)
  qed
  consider "0 < x" | "x = 0" | "x < 0" by linarith
  then show ?thesis
  proof cases
    case 1
    then show ?thesis by (rule pos)
  next
    case 2
    then show ?thesis by simp
  next
    case 3
    then have "round_nearest (round_nearest (- x)) = round_nearest (- x)" by (intro pos) simp
    then show ?thesis by (simp add: round_nearest_minus)
  qed
qed

lemma fl_round_cases:
  obtains (pos) "2 ^ 1024 \<le> round_nearest x" "fl_round x = PosInf"
  | (neg) "round_nearest x \<le> - (2 ^ 1024)" "fl_round x = NegInf"
  | (fin) "- (2 ^ 1024) < round_nearest x" "round_nearest x < 2 ^ 1024"
      "fl_round x = Finite (round_nearest x)"
  by (cases "2 ^ 1024 \<le> round_nearest x"; cases "round_nearest x \<le> - (2 ^ 1024)")
     (auto simp: fl_round_def Let_def)

lemma fl_round_Finite:
  "fl_round x = Finite r \<Longrightarrow> r = round_nearest x \<and> - (2 ^ 1024) < r \<and> r < 2 ^ 1024"
  by (cases x rule: fl_round_cases) auto

text \<open>Comparing a value of the format with a rounded number.\<close>

lemma fl_less_round:
  assumes R: "fl_round R = Finite R"
  shows "fl_less (Finite R) (fl_round z) \<longleftrightarrow> R < z \<and> fl_round z \<noteq> Finite R"
proof -
  from fl_round_Finite [OF R] have rR: "round_nearest R = R"
    and lo: "- (2 ^ 1024) < R" and hi: "R < 2 ^ 1024" by simp_all
  have a: "round_nearest z \<le> R" if "z \<le> R" using round_nearest_mono [OF that] rR by simp
  have b: "R \<le> round_nearest z" if "R \<le> z" using round_nearest_mono [OF that] rR by simp
  show ?thesis
  proof (cases z rule: fl_round_cases)
    case pos
    have "R < z" using a pos(1) hi by (cases "R < z") auto
    with pos(2) show ?thesis by simp
  next
    case neg
    have "\<not> R < z" using b neg(1) lo by (cases "R < z") auto
    with neg(2) show ?thesis by simp
  next
    case fin
    show ?thesis using a b by (cases "R < z") (auto simp: fin(3))
  qed
qed

lemma fl_round_unit:
  assumes "0 \<le> c" and "c \<le> 1"
  shows "\<exists>c'. fl_round c = Finite c' \<and> 0 \<le> c' \<and> c' \<le> 1"
proof -
  have one: "round_nearest 1 = 1" using round_nearest_exact [of 1 0] by simp
  have "0 \<le> round_nearest c" using assms(1) by (rule round_nearest_nonneg)
  moreover have "round_nearest c \<le> 1" using round_nearest_mono [OF assms(2)] one by simp
  ultimately show ?thesis by (simp add: fl_round_def Let_def)
qed

text \<open>A number that is not negative, rounded and multiplied by a factor between 0 and 1, is
  not above the rounded number.\<close>

lemma not_fl_less_scaled:
  assumes d: "0 \<le> d" and c: "0 \<le> c" "c \<le> 1"
  shows "\<not> fl_less (fl_round d) (fl_mul (fl_round d) (Finite c))"
proof (cases d rule: fl_round_cases)
  case pos
  then show ?thesis by simp
next
  case neg
  with round_nearest_nonneg [OF d] show ?thesis by simp
next
  case fin
  let ?T = "round_nearest d"
  have T: "0 \<le> ?T" using d by (rule round_nearest_nonneg)
  have "?T * c \<le> ?T" using T c by (simp add: mult_left_le)
  then have "round_nearest (?T * c) \<le> round_nearest ?T" by (rule round_nearest_mono)
  then have le: "round_nearest (?T * c) \<le> ?T" by (simp only: round_nearest_idem)
  show ?thesis
  proof (cases "?T * c" rule: fl_round_cases)
    case pos
    with le fin(2) show ?thesis by simp
  next
    case neg
    then show ?thesis by (simp add: fin(3))
  next
    case fin2: fin
    with le show ?thesis by (simp add: fin(3))
  qed
qed

text \<open>Evaluation of the rounding at a given number: a number of the format, and a number
  whose exponent is known.\<close>

lemma fl_round_exact:
  assumes "\<bar>m\<bar> \<le> 2 ^ 53" and "- 1074 \<le> j" and "\<bar>real_of_int m * 2 powi j\<bar> < 2 ^ 1024"
  shows "fl_round (of_int m * 2 powi j) = Finite (of_int m * 2 powi j)"
  using assms(3) by (simp add: fl_round_def Let_def round_nearest_exact [OF assms(1,2)] abs_less_iff)

lemma round_nearest_eval:
  assumes "0 < x" and "- 1022 \<le> e" and "2 powi e \<le> x" and "x < 2 powi (e + 1)"
  shows "round_nearest x = of_int (round_half_even (x / 2 powi (e - 52))) * 2 powi (e - 52)"
  by (simp only: round_nearest_pos [OF assms(1)] binade_eqI [OF assms])

lemma fl_round_of_int:
  assumes "\<bar>n\<bar> \<le> 2 ^ 53"
  shows "fl_round (of_int n) = Finite (of_int n)"
proof -
  have "\<bar>real_of_int n\<bar> \<le> real_of_int (2 ^ 53)"
    using assms by (simp only: of_int_abs [symmetric] of_int_le_iff)
  then have "\<bar>real_of_int n * 2 powi 0\<bar> < 2 ^ 1024" by simp
  from fl_round_exact [OF assms _ this] show ?thesis by simp
qed

lemma fl_round_eval:
  assumes "0 < x" and "- 1022 \<le> e" and "2 powi e \<le> x" and "x < 2 powi (e + 1)"
    and "round_half_even (x / 2 powi (e - 52)) = m" and "real_of_int m * 2 powi (e - 52) = r"
    and "r < 2 ^ 1024"
  shows "fl_round x = Finite r"
proof -
  have "round_nearest x = r"
    by (simp only: round_nearest_eval [OF assms(1-4)] assms(5,6))
  moreover have "0 \<le> round_nearest x" using assms(1) by (intro round_nearest_nonneg) simp
  ultimately show ?thesis using assms(7) by (simp add: fl_round_def Let_def)
qed

text \<open>The two literals used below are floats, and they are the floats of \<^verbatim>\<open>0.8\<close> and
  \<^verbatim>\<open>0.3\<close>.\<close>

lemma float_literals:
  "fl_round (8 / 10) = Finite float_0_8" "fl_round (3 / 10) = Finite float_0_3"
  "fl_round float_0_8 = Finite float_0_8" "fl_round float_0_3 = Finite float_0_3"
proof -
  show "fl_round (8 / 10) = Finite float_0_8"
    by (rule fl_round_eval [where e = "- 1" and m = 7205759403792794])
       (simp_all add: round_half_even_def Let_def float_0_8_def)
  show "fl_round (3 / 10) = Finite float_0_3"
    by (rule fl_round_eval [where e = "- 2" and m = 5404319552844595])
       (simp_all add: round_half_even_def Let_def float_0_3_def)
  show "fl_round float_0_8 = Finite float_0_8"
    using fl_round_exact [of 3602879701896397 "- 52"] by (simp add: float_0_8_def)
  show "fl_round float_0_3 = Finite float_0_3"
    using fl_round_exact [of 5404319552844595 "- 54"] by (simp add: float_0_3_def)
qed

subsection \<open>Exact subtraction\<close>

text \<open>A float is an integer of at most 53 bits scaled by the spacing of its binade.\<close>

lemma float_mantissa:
  assumes x: "0 < x" and f: "round_nearest x = x"
  obtains m where "0 \<le> m" "m \<le> 2 ^ 53" "x = of_int m * 2 powi (binade x - 52)"
proof -
  let ?u = "(2::real) powi (binade x - 52)"
  let ?m = "round_half_even (x / ?u)"
  have u0: "0 < ?u" by simp
  have r: "x = of_int ?m * ?u" using round_nearest_pos [OF x] f by simp
  have "0 \<le> real_of_int ?m * ?u" using x r by simp
  then have "0 \<le> real_of_int ?m" using u0 by (simp only: zero_le_mult_iff) linarith
  then have m0: "0 \<le> ?m" by simp
  have "real_of_int ?m * ?u \<le> 2 powi (binade x + 1)"
    using round_nearest_upper [OF x] f r by simp
  also have "binade x + 1 = 53 + (binade x - 52)" by simp
  also have "(2::real) powi (53 + (binade x - 52)) = 2 powi 53 * ?u" by (simp only: pow2_mult)
  finally have "real_of_int ?m \<le> 2 powi 53" using u0 by (simp only: mult_le_cancel_right_pos)
  then have "real_of_int ?m \<le> real_of_int (2 ^ 53)" by simp
  then have m53: "?m \<le> 2 ^ 53" by (simp only: of_int_le_iff)
  from m0 m53 r show ?thesis by (rule that)
qed

lemma diff_scaled:
  assumes "j \<le> jx" and "j \<le> jy"
  shows "\<exists>M. real_of_int mx * 2 powi jx - real_of_int my * 2 powi jy = real_of_int M * 2 powi j"
proof -
  have x: "(2::real) powi jx = 2 ^ nat (jx - j) * 2 powi j"
    using pow2_mult [of "jx - j" j] pow2_nat [of "jx - j"] assms(1) by simp
  have y: "(2::real) powi jy = 2 ^ nat (jy - j) * 2 powi j"
    using pow2_mult [of "jy - j" j] pow2_nat [of "jy - j"] assms(2) by simp
  have "real_of_int mx * 2 powi jx - real_of_int my * 2 powi jy
          = real_of_int (mx * 2 ^ nat (jx - j) - my * 2 ^ nat (jy - j)) * 2 powi j"
    by (simp add: x y algebra_simps)
  then show ?thesis by blast
qed

text \<open>The difference of two floats of which each is at least half the other is a float:
  the subtraction does not round.\<close>

lemma fl_sub_exact:
  assumes fx: "fl_round x = Finite x" and fy: "fl_round y = Finite y"
    and lo: "y / 2 \<le> x" and hi: "x \<le> 2 * y"
  shows "fl_sub x y = Finite (x - y)"
proof (cases "y = 0")
  case True
  with lo hi have "x = 0" by simp
  with True show ?thesis by (simp add: fl_sub_def fl_round_def)
next
  case False
  with lo hi have y: "0 < y" and x: "0 < x" by linarith+
  from fl_round_Finite [OF fx] have rx: "round_nearest x = x" and bx: "x < 2 ^ 1024" by simp_all
  from fl_round_Finite [OF fy] have ry: "round_nearest y = y" and by': "y < 2 ^ 1024" by simp_all
  let ?jx = "binade x - 52" and ?jy = "binade y - 52"
  from float_mantissa [OF x rx] obtain mx where
    mx: "0 \<le> mx" "mx \<le> 2 ^ 53" "x = of_int mx * 2 powi ?jx" by blast
  from float_mantissa [OF y ry] obtain my where
    my: "0 \<le> my" "my \<le> 2 ^ 53" "y = of_int my * 2 powi ?jy" by blast
  define j where "j = min ?jx ?jy"
  have jx: "j \<le> ?jx" and jy: "j \<le> ?jy" by (simp_all add: j_def)
  have j0: "- 1074 \<le> j" using binade_ge [of x] binade_ge [of y] by (simp add: j_def)
  from diff_scaled [OF jx jy, of mx my] mx(3) my(3) obtain M where
    M: "x - y = real_of_int M * 2 powi j" by auto
  have ax: "\<bar>x - y\<bar> \<le> x" and ay: "\<bar>x - y\<bar> \<le> y" using lo hi x y by linarith+
  have m53: "real_of_int mx \<le> 2 ^ 53" "real_of_int my \<le> 2 ^ 53"
    using mx(2) my(2) of_int_le_iff [of mx "2 ^ 53", where ?'a = real]
      of_int_le_iff [of my "2 ^ 53", where ?'a = real] by simp_all
  have "real_of_int mx * 2 powi ?jx \<le> 2 ^ 53 * 2 powi ?jx"
    using m53(1) by (intro mult_right_mono) simp_all
  with mx(3) have ux: "x \<le> 2 ^ 53 * 2 powi ?jx" by linarith
  have "real_of_int my * 2 powi ?jy \<le> 2 ^ 53 * 2 powi ?jy"
    using m53(2) by (intro mult_right_mono) simp_all
  with my(3) have uy: "y \<le> 2 ^ 53 * 2 powi ?jy" by linarith
  have small: "\<bar>x - y\<bar> \<le> 2 ^ 53 * 2 powi j"
  proof (cases "?jx \<le> ?jy")
    case True
    then have "j = ?jx" by (simp add: j_def)
    with ux ax show ?thesis by simp
  next
    case False
    then have "j = ?jy" by (simp add: j_def)
    with uy ay show ?thesis by simp
  qed
  have "\<bar>real_of_int M\<bar> * 2 powi j \<le> 2 ^ 53 * 2 powi j"
    using small by (simp add: M abs_mult)
  then have "\<bar>real_of_int M\<bar> \<le> 2 ^ 53" by simp
  then have "real_of_int \<bar>M\<bar> \<le> real_of_int (2 ^ 53)" by simp
  then have Mb: "\<bar>M\<bar> \<le> 2 ^ 53" by (simp only: of_int_le_iff)
  have "\<bar>x - y\<bar> < 2 ^ 1024" using ax bx by linarith
  then have "\<bar>real_of_int M * 2 powi j\<bar> < 2 ^ 1024" by (simp only: M)
  from fl_round_exact [OF Mb j0 this] show ?thesis by (simp add: fl_sub_def M)
qed

section \<open>Proofs about the refresh test\<close>

lemma need_refresh_enabled:
  "enable_async_refresh p \<Longrightarrow>
   need_refresh p now e th =
     fl_less (fl_sub (expires_at e) now)
       (fl_mul (fl_sub (expires_at e) (created_at e)) (fl_sub 1 th))"
  by (simp add: need_refresh_def Let_def)

lemma not_need_refresh_at_creation:
  assumes "created_at e \<le> expires_at e" and "0 \<le> th" and "th \<le> 1"
  shows "\<not> need_refresh p (created_at e) e th"
proof (cases "enable_async_refresh p")
  case False
  then show ?thesis by (simp add: need_refresh_def)
next
  case True
  have d: "0 \<le> expires_at e - created_at e" using assms(1) by simp
  from fl_round_unit [of "1 - th"] assms(2,3) obtain c where
    c: "fl_round (1 - th) = Finite c" "0 \<le> c" "c \<le> 1" by auto
  from not_fl_less_scaled [OF d c(2,3)] show ?thesis
    by (simp add: need_refresh_enabled [OF True] fl_sub_def c(1))
qed

text \<open>
  Claim C7, as the code has it. \<^verbatim>\<open>_need_refresh\<close> is false whenever the refresh hint
  (\<^verbatim>\<open>enable_async_refresh\<close>) is disabled. When it is enabled, the method compares
  \<open>expires_at - now\<close> with \<open>(expires_at - created_at) * (1 - threshold)\<close> in float
  arithmetic. For an entry with \<open>created_at < expires_at\<close> and inputs for which the three
  subtractions are exact, it is true exactly when
  \<open>(now - created_at) / (expires_at - created_at) > threshold\<close> and the product does not
  round to \<open>expires_at - now\<close>. At \<open>now = created_at\<close> it is false for every entry with
  \<open>created_at \<le> expires_at\<close> and every threshold from 0 to 1, whatever the rounding; in
  particular it is false, at the time of the store, for the entry that
  \<^verbatim>\<open>set_weather_data\<close> or \<^verbatim>\<open>set_city_info\<close> has just stored under a TTL that is not
  negative. A subtraction is exact when its operands are floats and each is at least half
  the other: so it is for two timestamps of our time, and for \<open>1 - threshold\<close> with a
  threshold from \<open>1 / 2\<close> to 1.
\<close>

theorem need_refresh_iff_fraction:
  "(\<not> enable_async_refresh self \<longrightarrow> \<not> need_refresh self now e th) \<and>
   (enable_async_refresh self \<longrightarrow> created_at e < expires_at e \<longrightarrow>
    fl_sub (expires_at e) now = Finite (expires_at e - now) \<longrightarrow>
    fl_sub (expires_at e) (created_at e) = Finite (expires_at e - created_at e) \<longrightarrow>
    fl_sub 1 th = Finite (1 - th) \<longrightarrow>
      (need_refresh self now e th \<longleftrightarrow>
         (now - created_at e) / (expires_at e - created_at e) > th \<and>
         fl_round ((expires_at e - created_at e) * (1 - th)) \<noteq> Finite (expires_at e - now))) \<and>
   (created_at e \<le> expires_at e \<longrightarrow> 0 \<le> th \<longrightarrow> th \<le> 1 \<longrightarrow>
      \<not> need_refresh self (created_at e) e th) \<and>
   (0 \<le> weather_cache_ttl p \<longrightarrow> 0 \<le> th \<longrightarrow> th \<le> 1 \<longrightarrow>
      dict_get (weather_cache (set_weather_data p dt t loc v)) (generate_weather_key dt loc True) = Some e' \<longrightarrow>
      \<not> need_refresh self t e' th) \<and>
   (0 \<le> city_cache_ttl p \<longrightarrow> 0 \<le> th \<longrightarrow> th \<le> 1 \<longrightarrow>
      dict_get (city_cache (set_city_info p t loc v)) (generate_city_key loc) = Some e' \<longrightarrow>
      \<not> need_refresh self t e' th) \<and>
   (fl_round x = Finite x \<longrightarrow> fl_round y = Finite y \<longrightarrow> y / 2 \<le> x \<longrightarrow> x \<le> 2 * y \<longrightarrow>
      fl_sub x y = Finite (x - y))"
proof (intro conjI impI)
  assume "\<not> enable_async_refresh self"
  then show "\<not> need_refresh self now e th" by (simp add: need_refresh_def)
next
  let ?ttl = "expires_at e - created_at e"
  assume en: "enable_async_refresh self" and pos: "created_at e < expires_at e"
    and r: "fl_sub (expires_at e) now = Finite (expires_at e - now)"
    and t: "fl_sub (expires_at e) (created_at e) = Finite ?ttl"
    and c: "fl_sub 1 th = Finite (1 - th)"
  have R: "fl_round (expires_at e - now) = Finite (expires_at e - now)"
    using r by (simp add: fl_sub_def)
  have "(expires_at e - now < ?ttl * (1 - th)) = (th * ?ttl < now - created_at e)"
    by (simp add: algebra_simps)
  also have "\<dots> = (th < (now - created_at e) / ?ttl)"
    using pos by (simp add: pos_less_divide_eq)
  finally have frac: "(expires_at e - now < ?ttl * (1 - th)) = (th < (now - created_at e) / ?ttl)" .
  have "need_refresh self now e th
          = fl_less (Finite (expires_at e - now)) (fl_round (?ttl * (1 - th)))"
    by (simp add: need_refresh_enabled [OF en] r t c)
  also have "\<dots> = (expires_at e - now < ?ttl * (1 - th) \<and>
                    fl_round (?ttl * (1 - th)) \<noteq> Finite (expires_at e - now))"
    by (rule fl_less_round [OF R])
  finally show "need_refresh self now e th \<longleftrightarrow>
         (now - created_at e) / ?ttl > th \<and>
         fl_round (?ttl * (1 - th)) \<noteq> Finite (expires_at e - now)"
    by (simp only: frac)
next
  assume "created_at e \<le> expires_at e" "0 \<le> th" "th \<le> 1"
  then show "\<not> need_refresh self (created_at e) e th" by (rule not_need_refresh_at_creation)
next
  assume ttl: "0 \<le> weather_cache_ttl p" and th: "0 \<le> th" "th \<le> 1"
    and g: "dict_get (weather_cache (set_weather_data p dt t loc v)) (generate_weather_key dt loc True) = Some e'"
  from set_weather_entry [OF g] ttl have "created_at e' = t" "created_at e' \<le> expires_at e'"
    by simp_all
  with not_need_refresh_at_creation [of e' th self] th
  show "\<not> need_refresh self t e' th" by simp
next
  assume ttl: "0 \<le> city_cache_ttl p" and th: "0 \<le> th" "th \<le> 1"
    and g: "dict_get (city_cache (set_city_info p t loc v)) (generate_city_key loc) = Some e'"
  from set_city_entry [OF g] ttl have "created_at e' = t" "created_at e' \<le> expires_at e'"
    by simp_all
  with not_need_refresh_at_creation [of e' th self] th
  show "\<not> need_refresh self t e' th" by simp
next
  assume "fl_round x = Finite x" "fl_round y = Finite y" "y / 2 \<le> x" "x \<le> 2 * y"
  then show "fl_sub x y = Finite (x - y)" by (rule fl_sub_exact)
qed

theorem need_refresh_iff_fraction_witness:
  "enable_async_refresh (init_pool default_config :: nat WeatherCachePool) \<and>
   created_at example_entry < expires_at example_entry \<and>
   fl_sub (expires_at example_entry) 85 = Finite (expires_at example_entry - 85) \<and>
   fl_sub (expires_at example_entry) 10 = Finite (expires_at example_entry - 10) \<and>
   fl_sub (expires_at example_entry) (created_at example_entry)
     = Finite (expires_at example_entry - created_at example_entry) \<and>
   fl_sub 1 float_0_8 = Finite (1 - float_0_8) \<and>
   need_refresh (init_pool default_config :: nat WeatherCachePool) 85 example_entry float_0_8 \<and>
   \<not> need_refresh (init_pool default_config :: nat WeatherCachePool) 10 example_entry float_0_8 \<and>
   \<not> need_refresh (init_pool default_config :: nat WeatherCachePool) (created_at example_entry)
        example_entry float_0_8"
proof -
  let ?p = "init_pool default_config :: nat WeatherCachePool"
  have en: "enable_async_refresh ?p"
    by (simp add: default_config_def init_pool_def config_get_def)
  have lt: "created_at example_entry < expires_at example_entry"
    and le: "created_at example_entry \<le> expires_at example_entry"
    by (simp_all add: example_entry_def)
  have r85: "fl_sub (expires_at example_entry) 85 = Finite (expires_at example_entry - 85)"
    using fl_round_of_int [of 15] by (simp add: fl_sub_def example_entry_def)
  have r10: "fl_sub (expires_at example_entry) 10 = Finite (expires_at example_entry - 10)"
    using fl_round_of_int [of 90] by (simp add: fl_sub_def example_entry_def)
  have t: "fl_sub (expires_at example_entry) (created_at example_entry)
             = Finite (expires_at example_entry - created_at example_entry)"
    using fl_round_of_int [of 100] by (simp add: fl_sub_def example_entry_def)
  have prod: "fl_round ((expires_at example_entry - created_at example_entry) * (1 - float_0_8))
                = Finite (5629499534213119 / 281474976710656)"
    by (rule fl_round_eval [where e = 4 and m = 5629499534213119])
       (simp_all add: round_half_even_def Let_def float_0_8_def example_entry_def)
  have th: "0 \<le> float_0_8" "float_0_8 \<le> 1" by (simp_all add: float_0_8_def)
  have f85: "float_0_8 < (85 - created_at example_entry) / (expires_at example_entry - created_at example_entry)"
    and f10: "\<not> float_0_8 < (10 - created_at example_entry) / (expires_at example_entry - created_at example_entry)"
    by (simp_all add: float_0_8_def example_entry_def)
  have ne: "fl_round ((expires_at example_entry - created_at example_entry) * (1 - float_0_8))
              \<noteq> Finite (expires_at example_entry - 85)"
    unfolding prod by (simp add: example_entry_def)
  have one: "fl_round 1 = Finite 1" using fl_round_of_int [of 1] by simp
  from need_refresh_iff_fraction [of "init_pool default_config :: nat WeatherCachePool" 85
      example_entry float_0_8 "init_pool default_config :: nat WeatherCachePool"
      "clock_at 10 30 0" 0 "[]" 0 example_entry 1 float_0_8] one float_literals(3)
  have c: "fl_sub 1 float_0_8 = Finite (1 - float_0_8)" by (simp add: float_0_8_def)
  from need_refresh_iff_fraction [of "init_pool default_config :: nat WeatherCachePool" 85
      example_entry float_0_8 "init_pool default_config :: nat WeatherCachePool"
      "clock_at 10 30 0" 0 "[]" 0 example_entry 1 float_0_8] en lt r85 t c f85 ne
  have a: "need_refresh ?p 85 example_entry float_0_8" by simp
  from need_refresh_iff_fraction [of "init_pool default_config :: nat WeatherCachePool" 10
      example_entry float_0_8 "init_pool default_config :: nat WeatherCachePool"
      "clock_at 10 30 0" 0 "[]" 0 example_entry 1 float_0_8] en lt r10 t c f10
  have b: "\<not> need_refresh ?p 10 example_entry float_0_8" by simp
  from need_refresh_iff_fraction [of "init_pool default_config :: nat WeatherCachePool" 0
      example_entry float_0_8 "init_pool default_config :: nat WeatherCachePool"
      "clock_at 10 30 0" 0 "[]" 0 example_entry 1 float_0_8] le th
  have d: "\<not> need_refresh ?p (created_at example_entry) example_entry float_0_8" by simp
  from en lt r85 r10 t c a b d show ?thesis by simp
qed

text \<open>
  Claim C7 as stated fails twice. When the hint is disabled: on a 100 second TTL at
  \<open>t = 85\<close> the elapsed fraction 0.85 exceeds the threshold 0.8, and \<^verbatim>\<open>_need_refresh\<close> is
  false. When the hint is enabled, on the rounding: with the threshold 0.3, which as a
  float is a little below \<open>3 / 10\<close>, on a 100 second TTL at \<open>t = 30\<close> the elapsed fraction
  \<open>3 / 10\<close> exceeds the threshold, but \<^verbatim>\<open>1 - 0.3\<close> rounds to the float 0.7, the
  product \<^verbatim>\<open>100 * 0.7\<close> rounds to 70, and \<^verbatim>\<open>70 < 70\<close> is false.
\<close>

theorem need_refresh_fraction_counterexample:
  "\<not> enable_async_refresh (init_pool example_config :: nat WeatherCachePool) \<and>
   \<not> need_refresh (init_pool example_config :: nat WeatherCachePool) 85 example_entry float_0_8 \<and>
   (85 - created_at example_entry) / (expires_at example_entry - created_at example_entry) > float_0_8 \<and>
   enable_async_refresh (init_pool default_config :: nat WeatherCachePool) \<and>
   0 < float_0_3 \<and> float_0_3 < 1 \<and>
   fl_sub 1 float_0_3 = Finite (3152519739159347 / 4503599627370496) \<and>
   fl_mul (Finite 100) (Finite (3152519739159347 / 4503599627370496)) = Finite 70 \<and>
   \<not> need_refresh (init_pool default_config :: nat WeatherCachePool) 30 example_entry float_0_3 \<and>
   (30 - created_at example_entry) / (expires_at example_entry - created_at example_entry) > float_0_3"
proof -
  have c: "fl_sub 1 float_0_3 = Finite (3152519739159347 / 4503599627370496)"
    unfolding fl_sub_def
    by (rule fl_round_eval [where e = "- 1" and m = 6305039478318694])
       (simp_all add: round_half_even_def Let_def float_0_3_def)
  have m: "fl_mul (Finite 100) (Finite (3152519739159347 / 4503599627370496)) = Finite 70"
    unfolding fl_mul.simps
    by (rule fl_round_eval [where e = 6 and m = 4925812092436480])
       (simp_all add: round_half_even_def Let_def)
  have r: "fl_sub 100 30 = Finite 70" using fl_round_of_int [of 70] by (simp add: fl_sub_def)
  have t: "fl_sub 100 0 = Finite 100" using fl_round_of_int [of 100] by (simp add: fl_sub_def)
  have en: "enable_async_refresh (init_pool default_config :: nat WeatherCachePool)"
    and dis: "\<not> enable_async_refresh (init_pool example_config :: nat WeatherCachePool)"
    by (simp_all add: default_config_def example_config_def init_pool_def config_get_def)
  have "need_refresh (init_pool default_config :: nat WeatherCachePool) 30 example_entry float_0_3
          = fl_less (fl_sub 100 30) (fl_mul (fl_sub 100 0) (fl_sub 1 float_0_3))"
    using en by (simp add: need_refresh_def Let_def example_entry_def)
  also have "\<dots> = fl_less (Finite 70) (Finite 70)" by (simp only: c m r t)
  finally have nr: "\<not> need_refresh (init_pool default_config :: nat WeatherCachePool) 30 example_entry float_0_3"
    by simp
  have nd: "\<not> need_refresh (init_pool example_config :: nat WeatherCachePool) 85 example_entry float_0_8"
    using dis by (simp add: need_refresh_def)
  have fr: "(85 - created_at example_entry) / (expires_at example_entry - created_at example_entry) > float_0_8"
    "0 < float_0_3" "float_0_3 < 1"
    "(30 - created_at example_entry) / (expires_at example_entry - created_at example_entry) > float_0_3"
    by (simp_all add: float_0_8_def float_0_3_def example_entry_def)
  from c m nr nd fr en dis show ?thesis by (intro conjI)
qed

section \<open>Proofs about the registration\<close>

lemma register_config_functions_form:
  "register_config_functions functions =
     (config_get functions [] @ filter (\<lambda>f. f \<notin> set (config_get functions [])) forced_functions,
      map LOG_auto_added (filter (\<lambda>f. f \<notin> set (config_get functions [])) forced_functions))"
  by (simp add: register_config_functions_def force_function_def Let_def forced_functions_def)

lemma count_list_filter_notin:
  "distinct ys \<Longrightarrow> count_list (filter (\<lambda>f. f \<notin> A) ys) x = (if x \<in> set ys \<and> x \<notin> A then 1 else 0)"
  by (induction ys) auto

lemma count_list_pos: "x \<in> set xs \<Longrightarrow> 1 \<le> count_list xs x"
  by (induction xs) auto

text \<open>
  Claim C9, as the code has it. For every configured list (and for a missing
  \<^verbatim>\<open>functions\<close> key, read as the empty list) the list handed to the registration loop is
  the configured list followed by the forced names that it lacks, in the fixed order
  \<^verbatim>\<open>send_email\<close>, \<^verbatim>\<open>save_weather_to_db\<close>, \<^verbatim>\<open>onvif_camera_control\<close>,
  \<^verbatim>\<open>vision_camera_analysis\<close>, with one log line per added name. Every forced name occurs
  in it: once if the configured list has it at most once, and as often as the configured
  list has it otherwise (the step adds no duplicate and removes none).
\<close>

theorem forced_functions_registered:
  "fst (register_config_functions functions) =
     config_get functions [] @ filter (\<lambda>f. f \<notin> set (config_get functions [])) forced_functions \<and>
   snd (register_config_functions functions) =
     map LOG_auto_added (filter (\<lambda>f. f \<notin> set (config_get functions [])) forced_functions) \<and>
   (\<forall>f \<in> set forced_functions.
      f \<in> set (fst (register_config_functions functions)) \<and>
      count_list (fst (register_config_functions functions)) f
        = max 1 (count_list (config_get functions []) f))"
proof -
  let ?base = "config_get functions []"
  have d: "distinct forced_functions" by (simp add: forced_functions_def)
  have c: "count_list (?base @ filter (\<lambda>f. f \<notin> set ?base) forced_functions) f = max 1 (count_list ?base f)"
    if "f \<in> set forced_functions" for f
  proof (cases "f \<in> set ?base")
    case True
    with count_list_pos [OF True] that show ?thesis
      by (simp add: count_list_filter_notin [OF d])
  next
    case False
    with that show ?thesis
      by (simp add: count_list_filter_notin [OF d])
  qed
  show ?thesis
    unfolding register_config_functions_form fst_conv snd_conv
    using c by auto
qed

theorem forced_functions_registered_witness:
  "fst (register_config_functions (Some [''get_weather'', ''send_email''])) =
     [''get_weather'', ''send_email'', ''save_weather_to_db'', ''onvif_camera_control'', ''vision_camera_analysis''] \<and>
   ''save_weather_to_db'' \<in> set forced_functions \<and>
   count_list (fst (register_config_functions (Some [''get_weather'', ''send_email'']))) ''save_weather_to_db'' = 1"
proof -
  have m: "''save_weather_to_db'' \<in> set forced_functions" by (simp add: forced_functions_def)
  from forced_functions_registered [of "Some [''get_weather'', ''send_email'']"] m
  show ?thesis by (simp add: config_get_def forced_functions_def)
qed

text \<open>
  Claim C9 as stated fails for a configured list that names a forced function twice: the
  assembled list then holds it twice, not exactly once.
\<close>

theorem forced_function_twice_counterexample:
  "count_list (fst (register_config_functions (Some [''send_email'', ''send_email'']))) ''send_email'' = 2"
  by (simp add: register_config_functions_def force_function_def Let_def config_get_def)

section \<open>Proofs about the plugin loader description\<close>

lemma startswith_Nil [simp]: "startswith s []"
  by (simp add: startswith_def)

lemma startswith_Nil_left [simp]: "startswith [] p = (p = [])"
  by (auto simp: startswith_def)

lemma startswith_Cons [simp]: "startswith (c # cs) (x # xs) = (c = x \<and> startswith cs xs)"
  by (simp add: startswith_def)

lemma replace_scan_copy:
  "\<not> startswith (c # cs) old \<Longrightarrow> replace_scan old new (c # cs) = c # replace_scan old new cs"
  by simp

lemma replace_scan_hit:
  "old \<noteq> [] \<Longrightarrow> startswith (c # cs) old \<Longrightarrow>
   replace_scan old new (c # cs) = new @ replace_scan old new (drop (length old) (c # cs))"
  by simp

lemma replace_scan_absent:
  "old \<noteq> [] \<Longrightarrow> \<not> str_contains old s \<Longrightarrow> replace_scan old new s = s"
  by (induction s) auto

lemma str_contains_skip:
  assumes "hd tok \<notin> set new" and "tok \<noteq> []"
  shows "str_contains tok (new @ r) = str_contains tok r"
  using assms by (induction new) (auto simp: neq_Nil_conv)

text \<open>A prefix of the scanned text made of characters of the inner part of the token and
  closed by its last character was copied, not inserted.\<close>

lemma inserted_not_prefix:
  assumes "cl \<notin> set new" and "c \<in> set new" and "c \<notin> P" and "set v \<subseteq> P"
  shows "\<not> startswith (new @ r) (v @ [cl])"
  using assms
proof (induction new arbitrary: v)
  case Nil
  then show ?case by simp
next
  case (Cons n new)
  show ?case
  proof (cases v)
    case Nil
    with Cons.prems show ?thesis by auto
  next
    case (Cons a v')
    with Cons.prems Cons.IH [of v'] show ?thesis by auto
  qed
qed

lemma copied_prefix:
  assumes "cl \<notin> set new" and "c \<in> set new" and "c \<notin> P" and "set v \<subseteq> P"
    and "startswith (replace_scan old new x) (v @ [cl])"
  shows "startswith x (v @ [cl])"
  using assms(4,5)
proof (induction v arbitrary: x)
  case Nil
  show ?case
  proof (cases x)
    case Nil
    with Nil.prems show ?thesis by simp
  next
    case (Cons a x')
    show ?thesis
    proof (cases "old \<noteq> [] \<and> startswith (a # x') old")
      case True
      then have "replace_scan old new (a # x') = new @ replace_scan old new (drop (length old) (a # x'))"
        by (intro replace_scan_hit) simp_all
      with Nil.prems inserted_not_prefix [OF assms(1,2,3), of "[]"] show ?thesis
        unfolding Cons by simp
    next
      case False
      then have "replace_scan old new (a # x') = a # replace_scan old new x'"
        by auto
      with Nil.prems show ?thesis unfolding Cons by simp
    qed
  qed
next
  case (Cons b v)
  show ?case
  proof (cases x)
    case Nil
    with Cons.prems show ?thesis by simp
  next
    case x: (Cons a x')
    show ?thesis
    proof (cases "old \<noteq> [] \<and> startswith (a # x') old")
      case True
      then have "replace_scan old new (a # x') = new @ replace_scan old new (drop (length old) (a # x'))"
        by (intro replace_scan_hit) simp_all
      with Cons.prems inserted_not_prefix [OF assms(1,2,3), of "b # v"] show ?thesis
        unfolding x by simp
    next
      case False
      then have "replace_scan old new (a # x') = a # replace_scan old new x'"
        by auto
      with Cons.prems Cons.IH [of x'] show ?thesis unfolding x by simp
    qed
  qed
qed

lemma replace_scan_no_token:
  assumes tok: "tok = op # w @ [cl]"
    and nb1: "op \<notin> set new" and nb2: "cl \<notin> set new"
    and c: "c \<in> set new" "c \<notin> set w"
  shows "\<not> str_contains tok (replace_scan tok new s)"
proof (induction "length s" arbitrary: s rule: less_induct)
  case less
  show ?case
  proof (cases s)
    case Nil
    then show ?thesis by (simp add: tok)
  next
    case (Cons a s')
    have tne: "tok \<noteq> []" and hd: "hd tok = op" by (simp_all add: tok)
    show ?thesis
    proof (cases "startswith (a # s') tok")
      case True
      have "length (drop (length tok) (a # s')) < length s"
        using Cons tne by (cases tok) simp_all
      then have "\<not> str_contains tok (replace_scan tok new (drop (length tok) (a # s')))"
        by (rule less)
      moreover have "replace_scan tok new (a # s') = new @ replace_scan tok new (drop (length tok) (a # s'))"
        using tne True by (rule replace_scan_hit)
      ultimately show ?thesis
        unfolding Cons using nb1 tne by (simp only: str_contains_skip hd not_False_eq_True)
    next
      case False
      have r: "replace_scan tok new (a # s') = a # replace_scan tok new s'"
        using False by (rule replace_scan_copy)
      have ih: "\<not> str_contains tok (replace_scan tok new s')"
        using Cons by (intro less) simp
      have "\<not> startswith (a # replace_scan tok new s') tok"
      proof
        assume st: "startswith (a # replace_scan tok new s') tok"
        then have a: "a = op" and sw: "startswith (replace_scan tok new s') (w @ [cl])"
          by (simp_all add: tok)
        have "startswith s' (w @ [cl])"
          by (rule copied_prefix [OF nb2 c order_refl sw])
        with a False show False by (simp add: tok)
      qed
      with ih show ?thesis unfolding Cons r by simp
    qed
  qed
qed

text \<open>The first occurrence: text before it is copied.\<close>

lemma startswith_overlap:
  assumes "startswith (x @ y) p" and "\<not> startswith x p" and "x \<noteq> []" and "y \<noteq> []"
  shows "hd y \<in> set (tl p)"
  using assms
proof (induction x arbitrary: p)
  case Nil
  then show ?case by simp
next
  case (Cons c x)
  then obtain a p' where p: "p = a # p'" by (cases p) auto
  show ?case
  proof (cases x)
    case Nil
    with Cons.prems p show ?thesis by (cases p'; cases y) auto
  next
    case (Cons c' x')
    with Cons.prems p Cons.IH [of p'] have "hd y \<in> set (tl p')" by auto
    then show ?thesis using p by (cases p') auto
  qed
qed

lemma replace_scan_first:
  assumes tok: "tok = op # rest" and op: "op \<notin> set rest"
    and na: "\<not> str_contains tok a"
  shows "replace_scan tok new (a @ tok @ b) = a @ new @ replace_scan tok new b"
  using na
proof (induction a)
  case Nil
  have "startswith (op # rest @ b) tok" unfolding tok using startswith_append [of "op # rest" b] by simp
  then have "replace_scan tok new (op # rest @ b) = new @ replace_scan tok new (drop (length tok) (op # rest @ b))"
    by (intro replace_scan_hit) (simp add: tok)
  then show ?case by (simp add: tok)
next
  case (Cons c a)
  then have ns: "\<not> startswith (c # a) tok" and na: "\<not> str_contains tok a"
    by simp_all
  have "\<not> startswith ((c # a) @ (tok @ b)) tok"
  proof
    assume "startswith ((c # a) @ (tok @ b)) tok"
    from startswith_overlap [OF this ns] op show False by (simp add: tok)
  qed
  then have "\<not> startswith (c # (a @ tok @ b)) tok"
    by simp
  then have "replace_scan tok new (c # (a @ tok @ b)) = c # replace_scan tok new (a @ tok @ b)"
    by (rule replace_scan_copy)
  then show ?case using Cons.IH [OF na] by simp
qed

lemma set_join_subset: "set (join sep xs) \<subseteq> set sep \<union> (\<Union>x\<in>set xs. set x)"
  by (induction sep xs rule: join.induct) auto

lemma set_join_member: "x \<in> set xs \<Longrightarrow> set x \<subseteq> set (join sep xs)"
  by (induction sep xs rule: join.induct) auto

lemma names_rewrite_plugin_loader:
  "current_support_functions (rewrite_plugin_loader j ds) = current_support_functions ds"
  by (induction ds) (simp_all add: current_support_functions_def)

lemma rewrite_plugin_loader_first:
  assumes "fn_name d = ''plugin_loader''" and "\<forall>x\<in>set pre. fn_name x \<noteq> ''plugin_loader''"
  shows "rewrite_plugin_loader j (pre @ d # post) =
           pre @ d\<lparr>fn_description := str_replace (fn_description d) ''[plugins]'' j\<rparr> # post"
  using assms by (induction pre) simp_all

lemma first_plugin_loader:
  assumes "''plugin_loader'' \<in> set (current_support_functions ds)"
  shows "\<exists>pre d post. ds = pre @ d # post \<and> fn_name d = ''plugin_loader'' \<and>
           (\<forall>x\<in>set pre. fn_name x \<noteq> ''plugin_loader'')"
  using assms
proof (induction ds)
  case Nil
  then show ?case by (simp add: current_support_functions_def)
next
  case (Cons x ds)
  show ?case
  proof (cases "fn_name x = ''plugin_loader''")
    case True
    then show ?thesis
      by (intro exI [of _ "[]"] exI [of _ x] exI [of _ ds]) simp
  next
    case False
    with Cons.prems have "''plugin_loader'' \<in> set (current_support_functions ds)"
      by (simp add: current_support_functions_def)
    from Cons.IH [OF this] obtain pre d post where
      "ds = pre @ d # post" "fn_name d = ''plugin_loader''"
      "\<forall>x\<in>set pre. fn_name x \<noteq> ''plugin_loader''"
      by blast
    with False have "x # ds = (x # pre) @ d # post \<and> fn_name d = ''plugin_loader'' \<and>
           (\<forall>y\<in>set (x # pre). fn_name y \<noteq> ''plugin_loader'')"
      by simp
    then show ?thesis by blast
  qed
qed

lemma str_replace_once:
  assumes "\<not> str_contains ''[plugins]'' a" and "\<not> str_contains ''[plugins]'' b"
  shows "str_replace (a @ ''[plugins]'' @ b) ''[plugins]'' new = a @ new @ b"
proof -
  have t: "''[plugins]'' = CHR ''['' # ''plugins]''" by simp
  have o: "CHR ''['' \<notin> set ''plugins]''" by simp
  have "replace_scan ''[plugins]'' new (a @ ''[plugins]'' @ b) = a @ new @ replace_scan ''[plugins]'' new b"
    by (rule replace_scan_first [OF t o assms(1)])
  moreover have "replace_scan ''[plugins]'' new b = b"
    using assms(2) by (intro replace_scan_absent) simp_all
  ultimately show ?thesis by (simp add: str_replace_def)
qed

lemma str_replace_idem:
  assumes "CHR ''['' \<notin> set new" and "CHR '']'' \<notin> set new"
    and "c \<in> set new" "c \<notin> set ''plugins''"
  shows "str_replace (str_replace d ''[plugins]'' new) ''[plugins]'' new = str_replace d ''[plugins]'' new"
proof -
  have t: "''[plugins]'' = CHR ''['' # ''plugins'' @ [CHR '']'']" by simp
  have "\<not> str_contains ''[plugins]'' (replace_scan ''[plugins]'' new d)"
    by (rule replace_scan_no_token [OF t assms])
  then have "replace_scan ''[plugins]'' new (replace_scan ''[plugins]'' new d) = replace_scan ''[plugins]'' new d"
    by (intro replace_scan_absent) simp_all
  then show ?thesis by (simp add: str_replace_def)
qed

text \<open>
  Claim C8, as the code has it. When \<^verbatim>\<open>plugin_loader\<close> is among the registered names, the
  substitution step rewrites the description of the first (in a registry the only) entry of
  that name and nothing else: every occurrence of \<^verbatim>\<open>[plugins]\<close> in it is replaced by the
  names of the other entries, in the order of the list, joined by commas;
  \<^verbatim>\<open>plugin_loader\<close> itself is not among them. In particular a description
  \<open>a @ ''[plugins]'' @ b\<close> with no further occurrence of the token becomes
  \<open>a @ names @ b\<close>. Running the step a second time changes nothing when no other
  registered name contains a bracket and some other registered name has a character that
  does not occur in the word \<^verbatim>\<open>plugins\<close> (true of the built-in names such as
  \<^verbatim>\<open>handle_exit_intent\<close>, \<^verbatim>\<open>get_time\<close> or \<^verbatim>\<open>send_email\<close>): then the inserted list cannot
  form the token again.
\<close>

theorem plugin_loader_substitution:
  assumes reg: "''plugin_loader'' \<in> set (current_support_functions descs)"
  shows
   "(\<exists>pre d post.
       descs = pre @ d # post \<and> fn_name d = ''plugin_loader'' \<and>
       (\<forall>x\<in>set pre. fn_name x \<noteq> ''plugin_loader'') \<and>
       substitution_step descs =
         pre @ d\<lparr>fn_description :=
                   str_replace (fn_description d) ''[plugins]''
                     (join '','' (filter (\<lambda>n. n \<noteq> ''plugin_loader'') (current_support_functions descs)))\<rparr> # post) \<and>
    (\<not> str_contains ''[plugins]'' a \<longrightarrow> \<not> str_contains ''[plugins]'' b \<longrightarrow>
       str_replace (a @ ''[plugins]'' @ b) ''[plugins]'' new = a @ new @ b) \<and>
    ''plugin_loader'' \<notin> set (filter (\<lambda>n. n \<noteq> ''plugin_loader'') (current_support_functions descs)) \<and>
    ((\<forall>n\<in>set (current_support_functions descs).
         n \<noteq> ''plugin_loader'' \<longrightarrow> CHR ''['' \<notin> set n \<and> CHR '']'' \<notin> set n) \<longrightarrow>
     (\<exists>n\<in>set (current_support_functions descs).
         n \<noteq> ''plugin_loader'' \<and> \<not> set n \<subseteq> set ''plugins'') \<longrightarrow>
     substitution_step (substitution_step descs) = substitution_step descs)"
proof (intro conjI impI)
  let ?names = "current_support_functions descs"
  let ?others = "filter (\<lambda>n. n \<noteq> ''plugin_loader'') ?names"
  let ?j = "join '','' ?others"
  from first_plugin_loader [OF reg] obtain pre d post where
    f: "descs = pre @ d # post" "fn_name d = ''plugin_loader''"
       "\<forall>x\<in>set pre. fn_name x \<noteq> ''plugin_loader''"
    by blast
  have step: "substitution_step descs = rewrite_plugin_loader ?j descs"
    using reg by (simp add: substitution_step_def modify_plugin_loader_des_def Let_def)
  have form: "substitution_step descs =
         pre @ d\<lparr>fn_description := str_replace (fn_description d) ''[plugins]'' ?j\<rparr> # post"
    unfolding step by (subst f(1), rule rewrite_plugin_loader_first [OF f(2,3)])
  from f form
  show "\<exists>pre d post.
       descs = pre @ d # post \<and> fn_name d = ''plugin_loader'' \<and>
       (\<forall>x\<in>set pre. fn_name x \<noteq> ''plugin_loader'') \<and>
       substitution_step descs =
         pre @ d\<lparr>fn_description := str_replace (fn_description d) ''[plugins]'' ?j\<rparr> # post"
    by blast
  show "''plugin_loader'' \<notin> set ?others" by simp
  {
    assume nobr: "\<forall>n\<in>set ?names. n \<noteq> ''plugin_loader'' \<longrightarrow> CHR ''['' \<notin> set n \<and> CHR '']'' \<notin> set n"
      and other: "\<exists>n\<in>set ?names. n \<noteq> ''plugin_loader'' \<and> \<not> set n \<subseteq> set ''plugins''"
    have sub: "set ?j \<subseteq> set '','' \<union> (\<Union>x\<in>set ?others. set x)"
      by (rule set_join_subset)
    have b1: "CHR ''['' \<notin> set ?j" and b2: "CHR '']'' \<notin> set ?j"
      using sub nobr by auto
    from other obtain n c where n: "n \<in> set ?others" and c: "c \<in> set n" "c \<notin> set ''plugins''"
      by auto
    from set_join_member [OF n, of "'',''"] c have cj: "c \<in> set ?j" by auto
    have names': "current_support_functions (substitution_step descs) = ?names"
      unfolding step by (rule names_rewrite_plugin_loader)
    have "substitution_step (substitution_step descs)
            = rewrite_plugin_loader ?j (substitution_step descs)"
      using reg by (simp add: substitution_step_def [of "substitution_step descs"]
          modify_plugin_loader_des_def Let_def names')
    also have "\<dots> = pre @ (d\<lparr>fn_description := str_replace (fn_description d) ''[plugins]'' ?j\<rparr>)
                  \<lparr>fn_description := str_replace (fn_description (d\<lparr>fn_description := str_replace (fn_description d) ''[plugins]'' ?j\<rparr>)) ''[plugins]'' ?j\<rparr> # post"
      unfolding form using f(2,3) by (intro rewrite_plugin_loader_first) simp_all
    also have "\<dots> = substitution_step descs"
      unfolding form by (simp add: str_replace_idem [OF b1 b2 cj c(2)])
    finally show "substitution_step (substitution_step descs) = substitution_step descs" .
  }
next
  assume "\<not> str_contains ''[plugins]'' a" "\<not> str_contains ''[plugins]'' b"
  then show "str_replace (a @ ''[plugins]'' @ b) ''[plugins]'' new = a @ new @ b"
    by (rule str_replace_once)
qed

theorem plugin_loader_substitution_witness:
  "''plugin_loader'' \<in> set (current_support_functions example_functions_desc) \<and>
   substitution_step example_functions_desc =
     [\<lparr> fn_name = ''handle_exit_intent'', fn_description = ''exit'' \<rparr>,
      \<lparr> fn_name = ''plugin_loader'', fn_description = ''plugins: handle_exit_intent,get_time.'' \<rparr>,
      \<lparr> fn_name = ''get_time'', fn_description = ''time'' \<rparr>] \<and>
   str_replace (''plugins: '' @ ''[plugins]'' @ ''.'') ''[plugins]'' ''handle_exit_intent,get_time''
     = ''plugins: '' @ ''handle_exit_intent,get_time'' @ ''.'' \<and>
   substitution_step (substitution_step example_functions_desc) = substitution_step example_functions_desc"
proof -
  have reg: "''plugin_loader'' \<in> set (current_support_functions example_functions_desc)"
    by (simp add: example_functions_desc_def current_support_functions_def)
  have nobr: "\<forall>n\<in>set (current_support_functions example_functions_desc).
       n \<noteq> ''plugin_loader'' \<longrightarrow> CHR ''['' \<notin> set n \<and> CHR '']'' \<notin> set n"
    by (simp add: example_functions_desc_def current_support_functions_def)
  have other: "\<exists>n\<in>set (current_support_functions example_functions_desc).
       n \<noteq> ''plugin_loader'' \<and> \<not> set n \<subseteq> set ''plugins''"
    by (simp add: example_functions_desc_def current_support_functions_def)
  have na: "\<not> str_contains ''[plugins]'' ''plugins: ''" and nb: "\<not> str_contains ''[plugins]'' ''.''"
    by (simp_all add: startswith_def)
  have ev: "substitution_step example_functions_desc =
     [\<lparr> fn_name = ''handle_exit_intent'', fn_description = ''exit'' \<rparr>,
      \<lparr> fn_name = ''plugin_loader'', fn_description = ''plugins: handle_exit_intent,get_time.'' \<rparr>,
      \<lparr> fn_name = ''get_time'', fn_description = ''time'' \<rparr>]"
    by (simp add: substitution_step_def modify_plugin_loader_des_def current_support_functions_def
        example_functions_desc_def str_replace_def startswith_def Let_def)
  from plugin_loader_substitution [OF reg, of "''plugins: ''" "''.''" "''handle_exit_intent,get_time''"]
    nobr other na nb
  have "str_replace (''plugins: '' @ ''[plugins]'' @ ''.'') ''[plugins]'' ''handle_exit_intent,get_time''
     = ''plugins: '' @ ''handle_exit_intent,get_time'' @ ''.''"
    and "substitution_step (substitution_step example_functions_desc) = substitution_step example_functions_desc"
    by blast+
  with reg nobr other na nb ev show ?thesis by blast
qed

text \<open>
  Claim C8 as stated fails in its last part: the step is not idempotent on every registry.
  With the description \<^verbatim>\<open>[[plugins]]\<close> and one other function, called \<^verbatim>\<open>plugins\<close>, the
  first run leaves \<^verbatim>\<open>[plugins]\<close>, which is the token again, and the second run, on the
  unchanged registry, rewrites it to \<^verbatim>\<open>plugins\<close>.
\<close>

theorem plugin_loader_rerun_counterexample:
  "''plugin_loader'' \<in> set (current_support_functions bracket_functions_desc) \<and>
   str_contains ''[plugins]'' (fn_description (hd bracket_functions_desc)) \<and>
   substitution_step bracket_functions_desc =
     [\<lparr> fn_name = ''plugin_loader'', fn_description = ''[plugins]'' \<rparr>,
      \<lparr> fn_name = ''plugins'', fn_description = ''p'' \<rparr>] \<and>
   substitution_step (substitution_step bracket_functions_desc) =
     [\<lparr> fn_name = ''plugin_loader'', fn_description = ''plugins'' \<rparr>,
      \<lparr> fn_name = ''plugins'', fn_description = ''p'' \<rparr>] \<and>
   substitution_step (substitution_step bracket_functions_desc) \<noteq> substitution_step bracket_functions_desc"
  by (simp add: substitution_step_def modify_plugin_loader_des_def current_support_functions_def
      bracket_functions_desc_def str_replace_def startswith_def Let_def)

section \<open>Proofs about the dispatcher\<close>

text \<open>The definitions that a run of the dispatcher on a concrete call unfolds.\<close>

lemmas handler_eval_defs = handle_llm_function_call_def handle_body_def decode_arguments_def
  getitem_def concat_pattern_def
  split_json_parts_def not_found_response_def Let_def startswith_def merge_object_def key_eq_def

lemma handle_unregistered:
  assumes "function_call_data ''name'' = Some name" and "function_registry name = None"
  shows "handle_llm_function_call function_registry loads conn function_call_data
           = ([LOG_received], Inr (Response not_found_response))"
  using assms by (simp add: handle_llm_function_call_def handle_body_def getitem_def)

lemma handle_decode_error:
  assumes "function_call_data ''name'' = Some name" and "function_registry name = Some item"
    and "function_call_data ''arguments'' = Some payload"
    and "decode_arguments loads payload = (lg, Inl e)" and "is_Exception e"
  shows "handle_llm_function_call function_registry loads conn function_call_data
           = ([LOG_received, LOG_raw_arguments payload] @ lg @ [LOG_error e], Inr ReturnNone)"
  using assms by (simp add: handle_llm_function_call_def handle_body_def getitem_def)

lemma handle_call:
  assumes "function_call_data ''name'' = Some name" and "function_registry name = Some item"
    and "function_call_data ''arguments'' = Some payload"
    and "decode_arguments loads payload = (lg, Inr (PDict d))" and "kwargs_of d = Some kw"
    and "tool_type item \<in> {SYSTEM_CTL, IOT_CTL, WAIT, CHANGE_SYS_PROMPT}"
  shows "handle_body function_registry loads conn function_call_data
           = ([LOG_received, LOG_raw_arguments payload] @ lg @ [LOG_calling name (PDict d)],
              map_sum id FuncResult (func item (if tool_type item = WAIT then None else Some conn) kw))"
  using assms by (auto simp: handle_body_def getitem_def Let_def)

lemma escaping_not_Exception:
  "snd (handle_llm_function_call function_registry loads conn function_call_data) = Inl e
   \<Longrightarrow> \<not> is_Exception e"
  by (auto simp: handle_llm_function_call_def split: prod.splits sum.splits if_splits)

text \<open>
  Claim C6, as the code has it. A call whose name the registry does not have returns the
  response with the action tag \<^verbatim>\<open>NOTFOUND\<close>, and nothing is raised. A call whose name is
  registered, whose arguments decode to keyword arguments and whose callable (called with
  the connection; for the type \<^verbatim>\<open>WAIT\<close> without it) raises \<open>e\<close>: when \<open>e\<close> is an
  instance of \<^verbatim>\<open>Exception\<close>, the handler logs \<open>e\<close> and returns \<^verbatim>\<open>None\<close>, which is not
  the not-found response; when it is not (\<^verbatim>\<open>KeyboardInterrupt\<close>, \<^verbatim>\<open>SystemExit\<close>,
  \<^verbatim>\<open>asyncio.CancelledError\<close>), the handler \<^verbatim>\<open>except Exception\<close> does not catch it,
  nothing more is logged and \<open>e\<close> leaves \<^verbatim>\<open>handle_llm_function_call\<close>. Whatever the call,
  no instance of \<^verbatim>\<open>Exception\<close> leaves \<^verbatim>\<open>handle_llm_function_call\<close>.
\<close>

theorem dispatch_not_found_and_failure:
  "(function_call_data ''name'' = Some name \<longrightarrow> function_registry name = None \<longrightarrow>
      handle_llm_function_call function_registry loads conn function_call_data
        = ([LOG_received], Inr (Response not_found_response))) \<and>
   action not_found_response = NOTFOUND \<and>
   (function_call_data ''name'' = Some name \<longrightarrow> function_registry name = Some item \<longrightarrow>
    function_call_data ''arguments'' = Some payload \<longrightarrow>
    decode_arguments loads payload = (lg, Inr (PDict d)) \<longrightarrow> kwargs_of d = Some kw \<longrightarrow>
    tool_type item \<in> {SYSTEM_CTL, IOT_CTL, WAIT, CHANGE_SYS_PROMPT} \<longrightarrow>
    func item (if tool_type item = WAIT then None else Some conn) kw = Inl e \<longrightarrow>
      handle_llm_function_call function_registry loads conn function_call_data
        = (if is_Exception e
           then ([LOG_received, LOG_raw_arguments payload] @ lg
                   @ [LOG_calling name (PDict d), LOG_error e], Inr ReturnNone)
           else ([LOG_received, LOG_raw_arguments payload] @ lg
                   @ [LOG_calling name (PDict d)], Inl e))) \<and>
   (ReturnNone :: 'r retval) \<noteq> Response not_found_response \<and>
   (snd (handle_llm_function_call function_registry loads conn function_call_data) = Inl e' \<longrightarrow>
      \<not> is_Exception e')"
proof (intro conjI impI)
  assume "function_call_data ''name'' = Some name" "function_registry name = None"
  then show "handle_llm_function_call function_registry loads conn function_call_data
        = ([LOG_received], Inr (Response not_found_response))"
    by (rule handle_unregistered)
next
  show "action not_found_response = NOTFOUND" by (simp add: not_found_response_def)
next
  assume a: "function_call_data ''name'' = Some name" "function_registry name = Some item"
    "function_call_data ''arguments'' = Some payload"
    "decode_arguments loads payload = (lg, Inr (PDict d))" "kwargs_of d = Some kw"
    "tool_type item \<in> {SYSTEM_CTL, IOT_CTL, WAIT, CHANGE_SYS_PROMPT}"
    and r: "func item (if tool_type item = WAIT then None else Some conn) kw = Inl e"
  from handle_call [where function_call_data = function_call_data and name = name
      and function_registry = function_registry and item = item and payload = payload
      and loads = loads and lg = lg and d = d and kw = kw and conn = conn, OF a] r
  show "handle_llm_function_call function_registry loads conn function_call_data
        = (if is_Exception e
           then ([LOG_received, LOG_raw_arguments payload] @ lg
                   @ [LOG_calling name (PDict d), LOG_error e], Inr ReturnNone)
           else ([LOG_received, LOG_raw_arguments payload] @ lg
                   @ [LOG_calling name (PDict d)], Inl e))"
    by (simp add: handle_llm_function_call_def)
next
  show "(ReturnNone :: 'r retval) \<noteq> Response not_found_response" by simp
next
  assume "snd (handle_llm_function_call function_registry loads conn function_call_data) = Inl e'"
  then show "\<not> is_Exception e'" by (rule escaping_not_Exception)
qed

theorem dispatch_not_found_and_failure_witness:
  \<open>handle_llm_function_call example_registry loads_example () (call_data ''get_lunar'' ''{"a":1}'')
     = ([LOG_received], Inr (Response not_found_response)) \<and>
   handle_llm_function_call example_registry loads_example () (call_data ''broken'' ''{"a":1}'')
     = ([LOG_received, LOG_raw_arguments ''{"a":1}'',
         LOG_calling ''broken'' (PDict [(PStr ''a'', PInt 1)]),
         LOG_error (OtherException ''connection refused'')], Inr ReturnNone)\<close>
proof -
  have n: \<open>call_data ''get_lunar'' ''{"a":1}'' ''name'' = Some ''get_lunar''\<close>
       \<open>example_registry ''get_lunar'' = None\<close>
    by (simp_all add: call_data_def example_registry_def)
  have b: \<open>call_data ''broken'' ''{"a":1}'' ''name'' = Some ''broken''\<close>
       \<open>example_registry ''broken'' = Some \<lparr> tool_type = SYSTEM_CTL,
                       func = (\<lambda>conn kwargs. Inl (OtherException ''connection refused'')) \<rparr>\<close>
       \<open>call_data ''broken'' ''{"a":1}'' ''arguments'' = Some ''{"a":1}''\<close>
       \<open>decode_arguments loads_example ''{"a":1}'' = ([], Inr (PDict [(PStr ''a'', PInt 1)]))\<close>
       \<open>kwargs_of [(PStr ''a'', PInt 1)] = Some [(''a'', PInt 1)]\<close>
    by (simp_all add: call_data_def example_registry_def decode_arguments_def loads_example_def)
  from dispatch_not_found_and_failure [of \<open>call_data ''get_lunar'' ''{"a":1}''\<close> \<open>''get_lunar''\<close>
      example_registry loads_example "()"] n
  have 1: \<open>handle_llm_function_call example_registry loads_example () (call_data ''get_lunar'' ''{"a":1}'')
     = ([LOG_received], Inr (Response not_found_response))\<close>
    by blast
  from dispatch_not_found_and_failure [of \<open>call_data ''broken'' ''{"a":1}''\<close> \<open>''broken''\<close>
      example_registry loads_example "()"
      \<open>\<lparr> tool_type = SYSTEM_CTL, func = (\<lambda>conn kwargs. Inl (OtherException ''connection refused'')) \<rparr>\<close>
      \<open>''{"a":1}''\<close> "[]" \<open>[(PStr ''a'', PInt 1)]\<close> \<open>[(''a'', PInt 1)]\<close>
      \<open>OtherException ''connection refused''\<close>] b
  have 2: \<open>handle_llm_function_call example_registry loads_example () (call_data ''broken'' ''{"a":1}'')
     = ([LOG_received, LOG_raw_arguments ''{"a":1}'',
         LOG_calling ''broken'' (PDict [(PStr ''a'', PInt 1)]),
         LOG_error (OtherException ''connection refused'')], Inr ReturnNone)\<close>
    by simp
  from 1 2 show ?thesis by blast
qed

text \<open>
  Claim C6 as stated fails for a callable that raises outside the class \<^verbatim>\<open>Exception\<close>:
  the registered callable \<^verbatim>\<open>interrupted\<close> raises \<^verbatim>\<open>KeyboardInterrupt\<close>, the dispatcher
  logs no failure and returns nothing, and the exception leaves it.
\<close>

theorem dispatch_escaping_counterexample:
  \<open>handle_llm_function_call interrupting_registry loads_example () (call_data ''interrupted'' ''{"a":1}'')
     = ([LOG_received, LOG_raw_arguments ''{"a":1}'',
         LOG_calling ''interrupted'' (PDict [(PStr ''a'', PInt 1)])],
        Inl (SystemExiting ''KeyboardInterrupt''))\<close>
  by (simp add: call_data_def interrupting_registry_def loads_example_def handler_eval_defs)

text \<open>
  Claim C5, as the code has it. For a registered name, a non-empty payload that
  \<^verbatim>\<open>json.loads\<close> rejects with a \<^verbatim>\<open>JSONDecodeError\<close> and that does not contain the pattern
  \<^verbatim>\<open>}{"\<close>: the decoding step re-raises that very error, the handler
  \<^verbatim>\<open>except Exception\<close> of the dispatcher catches it, logs it and the dispatcher returns
  \<^verbatim>\<open>None\<close>; the callable is not invoked (the result does not depend on it).
\<close>

theorem decode_error_is_logged:
  assumes "function_call_data ''name'' = Some name" and "function_registry name = Some item"
    and "function_call_data ''arguments'' = Some payload" and "payload \<noteq> []"
    and "loads payload = Inl (JSONDecodeError m)" and "\<not> str_contains concat_pattern payload"
  shows "decode_arguments loads payload = ([], Inl (JSONDecodeError m)) \<and>
         handle_llm_function_call function_registry loads conn function_call_data
           = ([LOG_received, LOG_raw_arguments payload, LOG_error (JSONDecodeError m)], Inr ReturnNone)"
proof -
  have d: "decode_arguments loads payload = ([], Inl (JSONDecodeError m))"
    using assms(4,5,6) by (simp add: decode_arguments_def)
  from handle_decode_error [where function_call_data = function_call_data and name = name
      and function_registry = function_registry and item = item and payload = payload
      and loads = loads and lg = "[]" and e = "JSONDecodeError m" and conn = conn,
      OF assms(1,2,3) d] d
  show ?thesis by simp
qed

theorem decode_error_is_logged_witness:
  \<open>decode_arguments loads_example ''not json at all''
     = ([], Inl (JSONDecodeError ''Expecting value: line 1 column 1 (char 0)'')) \<and>
   handle_llm_function_call example_registry loads_example () (call_data ''echo'' ''not json at all'')
     = ([LOG_received, LOG_raw_arguments ''not json at all'',
         LOG_error (JSONDecodeError ''Expecting value: line 1 column 1 (char 0)'')], Inr ReturnNone)\<close>
proof -
  have h: \<open>call_data ''echo'' ''not json at all'' ''name'' = Some ''echo''\<close>
     \<open>example_registry ''echo'' = Some \<lparr> tool_type = SYSTEM_CTL, func = (\<lambda>conn kwargs. Inr kwargs) \<rparr>\<close>
     \<open>call_data ''echo'' ''not json at all'' ''arguments'' = Some ''not json at all''\<close>
     \<open>''not json at all'' \<noteq> []\<close>
     \<open>loads_example ''not json at all'' = Inl (JSONDecodeError ''Expecting value: line 1 column 1 (char 0)'')\<close>
     \<open>\<not> str_contains concat_pattern ''not json at all''\<close>
    by (simp_all add: call_data_def example_registry_def loads_example_def concat_pattern_def
        startswith_def)
  from decode_error_is_logged [where function_call_data = \<open>call_data ''echo'' ''not json at all''\<close>
      and name = \<open>''echo''\<close> and function_registry = example_registry
      and item = \<open>\<lparr> tool_type = SYSTEM_CTL, func = (\<lambda>conn kwargs. Inr kwargs) \<rparr>\<close>
      and payload = \<open>''not json at all''\<close> and loads = loads_example
      and m = \<open>''Expecting value: line 1 column 1 (char 0)''\<close> and conn = "()", OF h]
  show ?thesis .
qed

text \<open>
  Claim C5 as stated fails: for the payload \<^verbatim>\<open>not json at all\<close> the caller of the
  dispatcher receives \<^verbatim>\<open>None\<close>, not the decode error; and for a name that is not
  registered the payload is never decoded, the caller receives the not-found response.
\<close>

theorem decode_error_masked_counterexample:
  \<open>snd (handle_llm_function_call example_registry loads_example () (call_data ''broken'' ''not json at all''))
     = Inr ReturnNone \<and>
   loads_example ''not json at all'' = Inl (JSONDecodeError ''Expecting value: line 1 column 1 (char 0)'') \<and>
   snd (handle_llm_function_call example_registry loads_example () (call_data ''get_lunar'' ''not json at all''))
     = Inr (Response not_found_response)\<close>
  by (simp add: call_data_def example_registry_def loads_example_def handler_eval_defs)

section \<open>Proofs about the repair of the arguments\<close>

subsection \<open>The merge loop\<close>

lemma merge_parts_objects:
  assumes "\<forall>p\<in>set parts. (\<exists>kvs. loads p = Inr (PDict kvs)) \<or> (\<exists>m. loads p = Inl (JSONDecodeError m))"
  shows "merge_parts loads parts acc = Inr (foldl merge_object acc (parsed_objects loads parts))"
  using assms
proof (induction parts arbitrary: acc)
  case Nil
  show ?case by (simp add: parsed_objects_def)
next
  case (Cons p parts)
  then have rest: "\<forall>p\<in>set parts. (\<exists>kvs. loads p = Inr (PDict kvs)) \<or> (\<exists>m. loads p = Inl (JSONDecodeError m))"
    by simp
  from Cons.prems consider kvs where "loads p = Inr (PDict kvs)" | m where "loads p = Inl (JSONDecodeError m)"
    by auto
  then show ?case
  proof cases
    case 1
    then show ?thesis using Cons.IH [OF rest] by (simp add: parsed_objects_def)
  next
    case 2
    then show ?thesis using Cons.IH [OF rest] by (simp add: parsed_objects_def)
  qed
qed

subsection \<open>Later bindings win\<close>

lemma key_eq_refl [simp]: "key_eq a a"
  by (cases a) (simp_all add: key_eq_def)

lemma key_eq_sym: "key_eq a b \<Longrightarrow> key_eq b a"
  by (auto simp: key_eq_def split: option.splits)

lemma key_eq_trans: "key_eq a b \<Longrightarrow> key_eq b c \<Longrightarrow> key_eq a c"
  by (auto simp: key_eq_def split: option.splits)

lemma pydict_get_setitem:
  "pydict_get (pydict_setitem d k' v) k = (if key_eq k' k then Some v else pydict_get d k)"
proof (induction d)
  case Nil
  show ?case by simp
next
  case (Cons a d)
  obtain k0 v0 where a: "a = (k0, v0)" by (cases a)
  show ?case
  proof (cases "key_eq k0 k'")
    case True
    then have "key_eq k0 k = key_eq k' k"
      using key_eq_trans key_eq_sym by blast
    with True show ?thesis by (simp add: a)
  next
    case False
    then have "key_eq k' k \<Longrightarrow> \<not> key_eq k0 k"
      using key_eq_trans key_eq_sym by blast
    with False Cons show ?thesis by (auto simp: a)
  qed
qed

lemma pydict_get_foldl_setitem:
  "pydict_get (foldl (\<lambda>d kv. pydict_setitem d (fst kv) (snd kv)) d kvs) k =
     (if filter (\<lambda>kv. key_eq (fst kv) k) kvs = [] then pydict_get d k
      else Some (snd (last (filter (\<lambda>kv. key_eq (fst kv) k) kvs))))"
proof (induction kvs rule: rev_induct)
  case Nil
  show ?case by simp
next
  case (snoc kv kvs)
  show ?case
    by (simp add: pydict_get_setitem snoc)
qed

lemma foldl_merge_object_concat:
  "foldl merge_object d objs = foldl (\<lambda>d kv. pydict_setitem d (fst kv) (snd kv)) d (concat objs)"
  by (induction objs arbitrary: d) (simp_all add: merge_object_def)

lemma pydict_get_merged:
  "pydict_get (foldl merge_object [] objs) k = last_binding objs k"
  by (cases "filter (\<lambda>kv. key_eq (fst kv) k) (concat objs)")
     (simp_all add: foldl_merge_object_concat pydict_get_foldl_setitem last_binding_def)

subsection \<open>Where the text is cut\<close>

lemma brace_depth_append: "brace_depth (x @ y) = brace_depth x + brace_depth y"
  by (induction x) simp_all

lemma split_loop_concat:
  "split_loop cs parts cur bc = (parts', cur') \<Longrightarrow> concat parts' @ cur' = concat parts @ cur @ cs"
  by (induction cs parts cur bc rule: split_loop.induct) (auto split: if_splits)

lemma split_loop_nonempty:
  "split_loop cs parts cur bc = (parts', cur') \<Longrightarrow> [] \<notin> set parts \<Longrightarrow> [] \<notin> set parts'"
  by (induction cs parts cur bc rule: split_loop.induct) (auto split: if_splits)

lemma split_loop_cur_nonempty:
  "split_loop cs parts cur bc = (parts', cur') \<Longrightarrow> cur \<noteq> [] \<or> cs \<noteq> [] \<Longrightarrow> cur' \<noteq> []"
  by (induction cs parts cur bc rule: split_loop.induct) (auto split: if_splits)

lemma part_boundaries_snoc1:
  "part_boundaries (ps @ [c]) = (\<lambda>j. concat (take j ps)) ` {j. 0 < j \<and> j \<le> length ps}"
proof -
  have "part_boundaries (ps @ [c]) = (\<lambda>j. concat (take j (ps @ [c]))) ` {j. 0 < j \<and> j \<le> length ps}"
    by (auto simp add: part_boundaries_def less_Suc_eq_le simp del: take_append)
  also have "\<dots> = (\<lambda>j. concat (take j ps)) ` {j. 0 < j \<and> j \<le> length ps}"
    by (rule image_cong) simp_all
  finally show ?thesis .
qed

lemma part_boundaries_last: "part_boundaries (ps @ [c1]) = part_boundaries (ps @ [c2])"
  by (simp only: part_boundaries_snoc1)

lemma part_boundaries_snoc:
  "part_boundaries (ps @ [c1, c2]) = part_boundaries (ps @ [c1]) \<union> {concat ps @ c1}"
proof -
  have s: "{j. 0 < j \<and> j \<le> length (ps @ [c1])} = {j. 0 < j \<and> j \<le> length ps} \<union> {Suc (length ps)}"
    by auto
  have "part_boundaries ((ps @ [c1]) @ [c2])
          = (\<lambda>j. concat (take j (ps @ [c1]))) ` ({j. 0 < j \<and> j \<le> length ps} \<union> {Suc (length ps)})"
    by (simp only: part_boundaries_snoc1 s)
  also have "\<dots> = (\<lambda>j. concat (take j (ps @ [c1]))) ` {j. 0 < j \<and> j \<le> length ps} \<union> {concat ps @ c1}"
    by (simp add: image_Un)
  also have "(\<lambda>j. concat (take j (ps @ [c1]))) ` {j. 0 < j \<and> j \<le> length ps}
               = (\<lambda>j. concat (take j ps)) ` {j. 0 < j \<and> j \<le> length ps}"
    by (rule image_cong) simp_all
  finally show ?thesis by (simp add: part_boundaries_snoc1)
qed

lemma cut_prefixes_Cons:
  "cut_prefixes done bc (c # cs) =
     (if c = CHR ''{'' \<and> bc = 0 \<and> done \<noteq> [] then {done} else {}) \<union>
     cut_prefixes (done @ [c]) (bc + brace_depth [c]) cs"
proof (intro set_eqI iffI)
  fix u
  assume "u \<in> cut_prefixes done bc (c # cs)"
  then obtain x v where u: "u = done @ x" and xv: "c # cs = x @ v" and v: "v \<noteq> []" "hd v = CHR ''{''"
    and d: "bc + brace_depth x = 0" and ne: "done @ x \<noteq> []"
    unfolding cut_prefixes_def by blast
  show "u \<in> (if c = CHR ''{'' \<and> bc = 0 \<and> done \<noteq> [] then {done} else {}) \<union>
     cut_prefixes (done @ [c]) (bc + brace_depth [c]) cs"
  proof (cases x)
    case Nil
    with u xv v d ne show ?thesis by auto
  next
    case (Cons a x')
    with xv have a: "a = c" and cs: "cs = x' @ v" by simp_all
    have "bc + brace_depth [c] + brace_depth x' = 0"
      using d Cons a brace_depth_append [of "[c]" x'] by simp
    with cs v have "(done @ [c]) @ x' \<in> cut_prefixes (done @ [c]) (bc + brace_depth [c]) cs"
      unfolding cut_prefixes_def by blast
    with u Cons a show ?thesis by simp
  qed
next
  fix u
  assume "u \<in> (if c = CHR ''{'' \<and> bc = 0 \<and> done \<noteq> [] then {done} else {}) \<union>
     cut_prefixes (done @ [c]) (bc + brace_depth [c]) cs"
  then consider "c = CHR ''{''" "bc = 0" "done \<noteq> []" "u = done"
    | "u \<in> cut_prefixes (done @ [c]) (bc + brace_depth [c]) cs"
    by (auto split: if_splits)
  then show "u \<in> cut_prefixes done bc (c # cs)"
  proof cases
    case 1
    then have "c # cs = [] @ (c # cs) \<and> c # cs \<noteq> [] \<and> hd (c # cs) = CHR ''{'' \<and>
               bc + brace_depth [] = 0 \<and> done @ [] \<noteq> [] \<and> u = done @ []"
      by simp
    then show ?thesis unfolding cut_prefixes_def by blast
  next
    case 2
    then obtain x v where u: "u = (done @ [c]) @ x" and xv: "cs = x @ v" and v: "v \<noteq> []" "hd v = CHR ''{''"
      and d: "bc + brace_depth [c] + brace_depth x = 0"
      unfolding cut_prefixes_def by blast
    have "bc + brace_depth (c # x) = 0"
      using d brace_depth_append [of "[c]" x] by simp
    with xv v have "c # cs = (c # x) @ v \<and> v \<noteq> [] \<and> hd v = CHR ''{'' \<and>
               bc + brace_depth (c # x) = 0 \<and> done @ (c # x) \<noteq> []"
      by simp
    then have "done @ (c # x) \<in> cut_prefixes done bc (c # cs)"
      unfolding cut_prefixes_def by blast
    with u show ?thesis by simp
  qed
qed

lemma cut_prefixes_Cons_cut:
  assumes "c = CHR ''{''" and "bc = 0" and "done \<noteq> []"
  shows "cut_prefixes done bc (c # cs) = {done} \<union> cut_prefixes (done @ [c]) (bc + 1) cs"
  using assms by (simp only: cut_prefixes_Cons) simp

lemma cut_prefixes_Cons_nocut:
  assumes "\<not> (c = CHR ''{'' \<and> bc = 0 \<and> done \<noteq> [])"
  shows "cut_prefixes done bc (c # cs) = cut_prefixes (done @ [c]) (bc + brace_depth [c]) cs"
  using assms by (simp only: cut_prefixes_Cons if_False Un_empty_left)

lemma cut_prefixes_Nil [simp]: "cut_prefixes done bc [] = {}"
  by (simp add: cut_prefixes_def)

lemma split_loop_boundaries:
  assumes "split_loop cs parts cur bc = (parts', cur')" and "cur = [] \<longrightarrow> parts = []"
  shows "part_boundaries (parts' @ [cur']) =
           part_boundaries (parts @ [cur]) \<union> cut_prefixes (concat parts @ cur) bc cs"
  using assms
proof (induction cs arbitrary: parts cur bc)
  case Nil
  then show ?case by simp
next
  case (Cons c cs)
  let ?done = "concat parts @ cur"
  show ?case
  proof (cases "c = CHR ''{'' \<and> bc = 0 \<and> cur \<noteq> []")
    case True
    then have l: "split_loop cs (parts @ [cur]) [c] (bc + 1) = (parts', cur')"
      using Cons.prems(1) by simp
    have "part_boundaries (parts' @ [cur']) =
            part_boundaries ((parts @ [cur]) @ [[c]]) \<union> cut_prefixes (concat (parts @ [cur]) @ [c]) (bc + 1) cs"
      by (rule Cons.IH [OF l]) simp
    also have "part_boundaries ((parts @ [cur]) @ [[c]]) = part_boundaries (parts @ [cur]) \<union> {?done}"
      using part_boundaries_snoc [of parts cur "[c]"] by simp
    finally have "part_boundaries (parts' @ [cur']) =
        part_boundaries (parts @ [cur]) \<union> ({?done} \<union> cut_prefixes (?done @ [c]) (bc + 1) cs)"
      by (simp add: Un_assoc)
    moreover have "cut_prefixes ?done bc (c # cs) = {?done} \<union> cut_prefixes (?done @ [c]) (bc + 1) cs"
      using True by (intro cut_prefixes_Cons_cut) simp_all
    ultimately show ?thesis by (simp only:)
  next
    case False
    define bc' where "bc' = bc + brace_depth [c]"
    have l: "split_loop cs parts (cur @ [c]) bc' = (parts', cur')"
      using Cons.prems(1) False by (auto simp: bc'_def split: if_splits)
    have nd: "\<not> (c = CHR ''{'' \<and> bc = 0 \<and> ?done \<noteq> [])"
      using False Cons.prems(2) by auto
    have "part_boundaries (parts' @ [cur']) =
            part_boundaries (parts @ [cur @ [c]]) \<union> cut_prefixes (concat parts @ cur @ [c]) bc' cs"
      by (rule Cons.IH [OF l]) simp
    also have "part_boundaries (parts @ [cur @ [c]]) = part_boundaries (parts @ [cur])"
      by (rule part_boundaries_last)
    finally have "part_boundaries (parts' @ [cur']) =
        part_boundaries (parts @ [cur]) \<union> cut_prefixes (?done @ [c]) (bc + brace_depth [c]) cs"
      by (simp add: bc'_def)
    moreover have "cut_prefixes ?done bc (c # cs) = cut_prefixes (?done @ [c]) (bc + brace_depth [c]) cs"
      using nd by (rule cut_prefixes_Cons_nocut)
    ultimately show ?thesis by (simp only:)
  qed
qed

lemma split_json_parts_concat: "concat (split_json_parts s) = s"
proof -
  obtain p c where l: "split_loop s [] [] 0 = (p, c)" by (cases "split_loop s [] [] 0")
  from split_loop_concat [OF l] show ?thesis by (auto simp: split_json_parts_def l)
qed

lemma split_json_parts_nonempty: "[] \<notin> set (split_json_parts s)"
proof -
  obtain p c where l: "split_loop s [] [] 0 = (p, c)" by (cases "split_loop s [] [] 0")
  from split_loop_nonempty [OF l] show ?thesis by (auto simp: split_json_parts_def l)
qed

lemma split_json_parts_boundaries:
  "part_boundaries (split_json_parts s) = cut_prefixes [] 0 s"
proof (cases s)
  case Nil
  then show ?thesis by (simp add: split_json_parts_def part_boundaries_def)
next
  case (Cons a s')
  obtain p c where l: "split_loop s [] [] 0 = (p, c)" by (cases "split_loop s [] [] 0")
  from split_loop_cur_nonempty [OF l] Cons have c: "c \<noteq> []" by simp
  have "part_boundaries (p @ [c]) = part_boundaries ([] @ [[]]) \<union> cut_prefixes (concat [] @ []) 0 s"
    by (rule split_loop_boundaries [OF l]) simp
  then show ?thesis using c by (simp add: split_json_parts_def l part_boundaries_def)
qed

lemma split_json_parts_cut:
  assumes "s = u @ v" and "u \<noteq> []" and "v \<noteq> []"
  shows "(\<exists>j. 0 < j \<and> j < length (split_json_parts s) \<and> u = concat (take j (split_json_parts s)))
         \<longleftrightarrow> (hd v = CHR ''{'' \<and> brace_depth u = 0)"
proof -
  have "(\<exists>j. 0 < j \<and> j < length (split_json_parts s) \<and> u = concat (take j (split_json_parts s)))
        \<longleftrightarrow> u \<in> part_boundaries (split_json_parts s)"
    unfolding part_boundaries_def by auto
  also have "\<dots> \<longleftrightarrow> u \<in> cut_prefixes [] 0 s"
    by (simp only: split_json_parts_boundaries)
  also have "\<dots> \<longleftrightarrow> (hd v = CHR ''{'' \<and> brace_depth u = 0)"
    using assms unfolding cut_prefixes_def by auto
  finally show ?thesis .
qed

text \<open>
  Claim C1, as the code has it. An empty payload decodes to the empty object. A non-empty
  payload that \<^verbatim>\<open>json.loads\<close> accepts decodes to the value it returns. A payload that
  \<^verbatim>\<open>json.loads\<close> rejects with a \<^verbatim>\<open>JSONDecodeError\<close> and that contains the pattern
  \<^verbatim>\<open>}{"\<close> is cut into non-empty parts that together are the payload; a cut lies in
  front of every opening brace that is met at brace count zero behind a non-empty text, and
  nowhere else (so text between a closing brace and the next opening brace stays with the
  earlier part). If every part either parses to an object or fails with a
  \<^verbatim>\<open>JSONDecodeError\<close>, the decoded arguments are the objects merged in the order of the
  parts, the failing parts left out: the merged dictionary binds a key to the value of the
  last object that has it. Decoded arguments that are an object with string keys are the
  keyword arguments of the call.
\<close>

theorem decode_arguments_repair:
  "decode_arguments loads [] = ([], Inr (PDict [])) \<and>
   (payload \<noteq> [] \<longrightarrow> loads payload = Inr v \<longrightarrow> decode_arguments loads payload = ([], Inr v)) \<and>
   (payload \<noteq> [] \<longrightarrow> loads payload = Inl (JSONDecodeError m) \<longrightarrow>
    str_contains concat_pattern payload \<longrightarrow>
    (\<forall>p\<in>set (split_json_parts payload).
        (\<exists>kvs. loads p = Inr (PDict kvs)) \<or> (\<exists>m'. loads p = Inl (JSONDecodeError m'))) \<longrightarrow>
      snd (decode_arguments loads payload)
        = Inr (PDict (foldl merge_object [] (parsed_objects loads (split_json_parts payload)))) \<and>
      (\<forall>k. pydict_get (foldl merge_object [] (parsed_objects loads (split_json_parts payload))) k
             = last_binding (parsed_objects loads (split_json_parts payload)) k)) \<and>
   concat (split_json_parts payload) = payload \<and>
   [] \<notin> set (split_json_parts payload) \<and>
   (payload = u @ w \<longrightarrow> u \<noteq> [] \<longrightarrow> w \<noteq> [] \<longrightarrow>
      ((\<exists>j. 0 < j \<and> j < length (split_json_parts payload) \<and>
            u = concat (take j (split_json_parts payload)))
       \<longleftrightarrow> (hd w = CHR ''{'' \<and> brace_depth u = 0))) \<and>
   (function_call_data ''name'' = Some name \<longrightarrow> function_registry name = Some item \<longrightarrow>
    function_call_data ''arguments'' = Some payload \<longrightarrow>
    decode_arguments loads payload = (lg, Inr (PDict d)) \<longrightarrow> kwargs_of d = Some kw \<longrightarrow>
    tool_type item \<in> {SYSTEM_CTL, IOT_CTL, WAIT, CHANGE_SYS_PROMPT} \<longrightarrow>
      handle_body function_registry loads conn function_call_data
        = ([LOG_received, LOG_raw_arguments payload] @ lg @ [LOG_calling name (PDict d)],
           map_sum id FuncResult (func item (if tool_type item = WAIT then None else Some conn) kw)))"
proof (intro conjI impI allI)
  show "decode_arguments loads [] = ([], Inr (PDict []))"
    by (simp add: decode_arguments_def)
next
  assume "payload \<noteq> []" "loads payload = Inr v"
  then show "decode_arguments loads payload = ([], Inr v)"
    by (simp add: decode_arguments_def)
next
  assume "payload \<noteq> []" "loads payload = Inl (JSONDecodeError m)"
    "str_contains concat_pattern payload"
    and frag: "\<forall>p\<in>set (split_json_parts payload).
        (\<exists>kvs. loads p = Inr (PDict kvs)) \<or> (\<exists>m'. loads p = Inl (JSONDecodeError m'))"
  then show "snd (decode_arguments loads payload)
        = Inr (PDict (foldl merge_object [] (parsed_objects loads (split_json_parts payload))))"
    by (simp add: decode_arguments_def merge_parts_objects [OF frag])
next
  fix k
  show "pydict_get (foldl merge_object [] (parsed_objects loads (split_json_parts payload))) k
             = last_binding (parsed_objects loads (split_json_parts payload)) k"
    by (rule pydict_get_merged)
next
  show "concat (split_json_parts payload) = payload" by (rule split_json_parts_concat)
next
  show "[] \<notin> set (split_json_parts payload)" by (rule split_json_parts_nonempty)
next
  assume "payload = u @ w" "u \<noteq> []" "w \<noteq> []"
  then show "(\<exists>j. 0 < j \<and> j < length (split_json_parts payload) \<and>
            u = concat (take j (split_json_parts payload)))
       \<longleftrightarrow> (hd w = CHR ''{'' \<and> brace_depth u = 0)"
    by (rule split_json_parts_cut)
next
  assume "function_call_data ''name'' = Some name" "function_registry name = Some item"
    "function_call_data ''arguments'' = Some payload"
    "decode_arguments loads payload = (lg, Inr (PDict d))" "kwargs_of d = Some kw"
    "tool_type item \<in> {SYSTEM_CTL, IOT_CTL, WAIT, CHANGE_SYS_PROMPT}"
  then show "handle_body function_registry loads conn function_call_data
        = ([LOG_received, LOG_raw_arguments payload] @ lg @ [LOG_calling name (PDict d)],
           map_sum id FuncResult (func item (if tool_type item = WAIT then None else Some conn) kw))"
    by (rule handle_call)
qed

theorem decode_arguments_repair_witness:
  \<open>split_json_parts ''{"a":1}{invalid}{"b":2}'' = [''{"a":1}'', ''{invalid}'', ''{"b":2}''] \<and>
   snd (decode_arguments loads_example ''{"a":1}{invalid}{"b":2}'')
     = Inr (PDict [(PStr ''a'', PInt 1), (PStr ''b'', PInt 2)]) \<and>
   pydict_get (foldl merge_object []
       (parsed_objects loads_example (split_json_parts ''{"a":1}{invalid}{"b":2}''))) (PStr ''b'')
     = Some (PInt 2) \<and>
   snd (decode_arguments loads_example ''{"a":1}'') = Inr (PDict [(PStr ''a'', PInt 1)])\<close>
proof -
  have sp: \<open>split_json_parts ''{"a":1}{invalid}{"b":2}'' = [''{"a":1}'', ''{invalid}'', ''{"b":2}'']\<close>
    by (simp add: split_json_parts_def)
  have ne: \<open>''{"a":1}{invalid}{"b":2}'' \<noteq> []\<close> \<open>''{"a":1}'' \<noteq> []\<close> by simp_all
  have ld: \<open>loads_example ''{"a":1}{invalid}{"b":2}''
              = Inl (JSONDecodeError ''Extra data: line 1 column 8 (char 7)'')\<close>
           \<open>loads_example ''{"a":1}'' = Inr (PDict [(PStr ''a'', PInt 1)])\<close>
    by (simp_all add: loads_example_def)
  have pat: \<open>str_contains concat_pattern ''{"a":1}{invalid}{"b":2}''\<close>
    by (simp add: concat_pattern_def startswith_def)
  have frag: \<open>\<forall>p\<in>set (split_json_parts ''{"a":1}{invalid}{"b":2}'').
        (\<exists>kvs. loads_example p = Inr (PDict kvs)) \<or> (\<exists>m'. loads_example p = Inl (JSONDecodeError m'))\<close>
    unfolding sp by (simp add: loads_example_def)
  have po: \<open>parsed_objects loads_example [''{"a":1}'', ''{invalid}'', ''{"b":2}'']
              = [[(PStr ''a'', PInt 1)], [(PStr ''b'', PInt 2)]]\<close>
    by (simp add: parsed_objects_def loads_example_def)
  from decode_arguments_repair [of loads_example \<open>''{"a":1}{invalid}{"b":2}''\<close> PNone
      \<open>''Extra data: line 1 column 8 (char 7)''\<close> \<open>[]\<close> \<open>[]\<close> \<open>call_data ''echo'' []\<close> \<open>''echo''\<close> example_registry
      \<open>\<lparr> tool_type = SYSTEM_CTL, func = (\<lambda>conn kwargs. Inr kwargs) \<rparr>\<close> \<open>[]\<close> \<open>[]\<close> \<open>[]\<close> "()"] ne ld pat frag
  have 1: \<open>snd (decode_arguments loads_example ''{"a":1}{invalid}{"b":2}'')
        = Inr (PDict (foldl merge_object [] (parsed_objects loads_example (split_json_parts ''{"a":1}{invalid}{"b":2}''))))\<close>
    and 2: \<open>pydict_get (foldl merge_object [] (parsed_objects loads_example (split_json_parts ''{"a":1}{invalid}{"b":2}''))) (PStr ''b'')
             = last_binding (parsed_objects loads_example (split_json_parts ''{"a":1}{invalid}{"b":2}'')) (PStr ''b'')\<close>
    by blast+
  from decode_arguments_repair [of loads_example \<open>''{"a":1}''\<close> \<open>PDict [(PStr ''a'', PInt 1)]\<close>
      \<open>[]\<close> \<open>[]\<close> \<open>[]\<close> \<open>call_data ''echo'' []\<close> \<open>''echo''\<close> example_registry
      \<open>\<lparr> tool_type = SYSTEM_CTL, func = (\<lambda>conn kwargs. Inr kwargs) \<rparr>\<close> \<open>[]\<close> \<open>[]\<close> \<open>[]\<close> "()"] ne ld
  have 3: \<open>snd (decode_arguments loads_example ''{"a":1}'') = Inr (PDict [(PStr ''a'', PInt 1)])\<close>
    by simp
  have m: \<open>foldl merge_object [] [[(PStr ''a'', PInt 1)], [(PStr ''b'', PInt 2)]]
             = [(PStr ''a'', PInt 1), (PStr ''b'', PInt 2)]\<close>
    by (simp add: merge_object_def key_eq_def)
  have lb: \<open>last_binding [[(PStr ''a'', PInt 1)], [(PStr ''b'', PInt 2)]] (PStr ''b'') = Some (PInt 2)\<close>
    by (simp add: last_binding_def key_eq_def)
  from sp 1 2 3 lb show ?thesis by (simp add: po merge_object_def key_eq_def)
qed

text \<open>
  Claim C1 as stated fails twice. In \<^verbatim>\<open>1{"a":1}{"b":2}\<close> every part parses, but the first
  parses to the number 1, \<^verbatim>\<open>update\<close> raises a \<^verbatim>\<open>TypeError\<close> that the inner handler does
  not catch, and the dispatcher returns \<^verbatim>\<open>None\<close> instead of calling with the merged
  object. In \<^verbatim>\<open>{"a":1}x{"b":2}{"c":3}\<close> the brace count is back at zero after the first
  closing brace, but the cut is made in front of the next opening brace: the first part is
  \<^verbatim>\<open>{"a":1}x\<close>, it fails to parse, and the key \<^verbatim>\<open>a\<close> is lost.
\<close>

theorem decode_arguments_repair_counterexample:
  \<open>split_json_parts ''1{"a":1}{"b":2}'' = [''1'', ''{"a":1}'', ''{"b":2}''] \<and>
   loads_example ''1'' = Inr (PInt 1) \<and>
   snd (decode_arguments loads_example ''1{"a":1}{"b":2}'') = Inl (TypeError ''object is not iterable'') \<and>
   snd (handle_llm_function_call example_registry loads_example () (call_data ''echo'' ''1{"a":1}{"b":2}''))
     = Inr ReturnNone \<and>
   split_json_parts ''{"a":1}x{"b":2}{"c":3}'' = [''{"a":1}x'', ''{"b":2}'', ''{"c":3}''] \<and>
   snd (decode_arguments loads_example ''{"a":1}x{"b":2}{"c":3}'')
     = Inr (PDict [(PStr ''b'', PInt 2), (PStr ''c'', PInt 3)])\<close>
  by (simp add: call_data_def example_registry_def loads_example_def handler_eval_defs)

end
